theory Spec2Isabelle
  imports Complex_Main "HOL-Library.AList"
begin

section \<open>Python values used by the notebook\<close>

text \<open>
  The notebook \<^verbatim>\<open>parts-of-speech-tagging.ipynb\<close> is Python 3. Words and tags are
  strings, counters are Python integers (\<open>int\<close>), and the quotient \<^verbatim>\<open>a / b\<close> of two
  integers is modelled by the exact rational \<open>a / b\<close> (Python rounds that quotient to the
  nearest double; the rounding is not modelled). Every exception the code can raise is a
  value of \<open>py_error\<close>, and a computation that may raise returns \<open>py_error + 'a\<close>.
\<close>

datatype py_error =
  IndexError | KeyError | ZeroDivisionError | ValueError | TypeError | AttributeError

definition err_bind :: "py_error + 'a \<Rightarrow> ('a \<Rightarrow> py_error + 'b) \<Rightarrow> py_error + 'b" where
  "err_bind r f = (case r of Inl e \<Rightarrow> Inl e | Inr v \<Rightarrow> f v)"

text \<open>
  A Python \<^verbatim>\<open>dict\<close> keeps its keys in insertion order and the notebook iterates over
  dictionaries, so a dictionary is an association list: \<^verbatim>\<open>d[k] = v\<close> overwrites the entry
  of an existing key in place and appends a new key at the end.
\<close>

type_synonym ('k, 'v) dict = "('k \<times> 'v) list"

definition dict_set :: "('k, 'v) dict \<Rightarrow> 'k \<Rightarrow> 'v \<Rightarrow> ('k, 'v) dict" where
  "dict_set d k v = AList.update k v d"

definition dict_keys :: "('k, 'v) dict \<Rightarrow> 'k list" where
  "dict_keys d = map fst d"

text \<open>\<^verbatim>\<open>d[k]\<close> as an expression: \<^verbatim>\<open>KeyError\<close> when the key is absent.\<close>

definition dict_getitem :: "('k, 'v) dict \<Rightarrow> 'k \<Rightarrow> py_error + 'v" where
  "dict_getitem d k = (case map_of d k of None \<Rightarrow> Inl KeyError | Some v \<Rightarrow> Inr v)"

text \<open>\<^verbatim>\<open>xs[i]\<close> for an index \<open>i \<ge> 0\<close>: \<^verbatim>\<open>IndexError\<close> past the end.\<close>

definition py_index :: "'a list \<Rightarrow> nat \<Rightarrow> py_error + 'a" where
  "py_index xs i = (if i < length xs then Inr (xs ! i) else Inl IndexError)"

text \<open>\<^verbatim>\<open>a / b\<close> on integers: true division, \<^verbatim>\<open>ZeroDivisionError\<close> when \<open>b = 0\<close>.\<close>

definition py_truediv :: "int \<Rightarrow> int \<Rightarrow> py_error + rat" where
  "py_truediv a b = (if b = 0 then Inl ZeroDivisionError else Inr (of_int a / of_int b))"

text \<open>
  Reading a counter the way the specification talks about it: the stored count, and
  \<open>0\<close> for a key that was never inserted.
\<close>

definition count_of :: "('k, int) dict \<Rightarrow> 'k \<Rightarrow> int" where
  "count_of d k = (case map_of d k of None \<Rightarrow> 0 | Some c \<Rightarrow> c)"

definition count_of2 :: "('a, ('b, int) dict) dict \<Rightarrow> 'a \<Rightarrow> 'b \<Rightarrow> int" where
  "count_of2 d a b = (case map_of d a of None \<Rightarrow> 0 | Some inner \<Rightarrow> count_of inner b)"

section \<open>Count aggregator\<close>

subsection \<open>\<^verbatim>\<open>pair_counts\<close>\<close>

text \<open>
  \<^verbatim>\<open>
  def pair_counts(sequences_A, sequences_B):
      results = {}
      for x1, sentence in enumerate(sequences_A):
          for x2, s_A in enumerate(sentence):
              t = sequences_B[x1][x2]
              if s_A in results and t in results[s_A]:
                  results[s_A][t] += 1
              elif s_A in results:
                      results[s_A][t] = 1
              else:
                  results[s_A] = {t:1}
      return results
  \<close>
  The body of the inner loop after \<open>t\<close> has been read is \<open>pair_counts_step\<close>; the two
  loops carry the running indices \<open>x1\<close> and \<open>x2\<close> of \<^verbatim>\<open>enumerate\<close>.
\<close>

definition pair_counts_step ::
  "('a, ('b, int) dict) dict \<Rightarrow> 'a \<Rightarrow> 'b \<Rightarrow> ('a, ('b, int) dict) dict" where
  "pair_counts_step results s_A t =
     (case map_of results s_A of
        Some inner \<Rightarrow>
          (case map_of inner t of
             Some c \<Rightarrow> dict_set results s_A (dict_set inner t (c + 1))
           | None \<Rightarrow> dict_set results s_A (dict_set inner t 1))
      | None \<Rightarrow> dict_set results s_A [(t, 1)])"

fun pair_counts_inner ::
  "'b list list \<Rightarrow> nat \<Rightarrow> nat \<Rightarrow> 'a list \<Rightarrow> ('a, ('b, int) dict) dict
     \<Rightarrow> py_error + ('a, ('b, int) dict) dict" where
  "pair_counts_inner sequences_B x1 x2 [] results = Inr results"
| "pair_counts_inner sequences_B x1 x2 (s_A # rest) results =
     err_bind (py_index sequences_B x1) (\<lambda>row.
     err_bind (py_index row x2) (\<lambda>t.
       pair_counts_inner sequences_B x1 (Suc x2) rest (pair_counts_step results s_A t)))"

fun pair_counts_outer ::
  "'b list list \<Rightarrow> nat \<Rightarrow> 'a list list \<Rightarrow> ('a, ('b, int) dict) dict
     \<Rightarrow> py_error + ('a, ('b, int) dict) dict" where
  "pair_counts_outer sequences_B x1 [] results = Inr results"
| "pair_counts_outer sequences_B x1 (sentence # rest) results =
     err_bind (pair_counts_inner sequences_B x1 0 sentence results)
       (pair_counts_outer sequences_B (Suc x1) rest)"

definition pair_counts ::
  "'a list list \<Rightarrow> 'b list list \<Rightarrow> py_error + ('a, ('b, int) dict) dict" where
  "pair_counts sequences_A sequences_B = pair_counts_outer sequences_B 0 sequences_A []"

text \<open>
  The grand total of a nested counter, summed over the outer keys \<open>a\<close> and, for each of
  them, over the inner keys \<open>b\<close>:
  \<^verbatim>\<open>sum(results[a][b] for a in results for b in results[a])\<close>.
\<close>

definition total_count :: "('a, ('b, int) dict) dict \<Rightarrow> int" where
  "total_count results =
     sum_list (map (\<lambda>a. sum_list (map (\<lambda>b. count_of2 results a b)
                       (case map_of results a of None \<Rightarrow> [] | Some inner \<Rightarrow> dict_keys inner)))
                   (dict_keys results))"

subsection \<open>\<^verbatim>\<open>unigram_counts\<close>, \<^verbatim>\<open>bigram_counts\<close>, \<^verbatim>\<open>starting_counts\<close>, \<^verbatim>\<open>ending_counts\<close>\<close>

text \<open>
  All four functions share the statement
  \<^verbatim>\<open>if k in d: d[k] += 1  else: d[k] = 1\<close>, here \<open>count_step\<close>.
\<close>

definition count_step :: "('k, int) dict \<Rightarrow> 'k \<Rightarrow> ('k, int) dict" where
  "count_step d k = (case map_of d k of Some c \<Rightarrow> dict_set d k (c + 1) | None \<Rightarrow> dict_set d k 1)"

text \<open>
  \<^verbatim>\<open>
  def unigram_counts(sequences):
      unigram_counts = {}
      for i, sentence in enumerate(sequences):
          for j, y in enumerate(sentence):
              if y in unigram_counts: unigram_counts[y] += 1
              else: unigram_counts[y] = 1
      return unigram_counts
  \<close>
\<close>

definition unigram_counts :: "'a list list \<Rightarrow> ('a, int) dict" where
  "unigram_counts sequences =
     foldl (\<lambda>d sentence. foldl count_step d sentence) [] sequences"

text \<open>
  \<^verbatim>\<open>
  def bigram_counts(sequences):
      bigram_counts = {}
      for i, sentence in enumerate(sequences):
          for y in range(len(sentence) - 1):
              if (sentence[y], sentence[y+1]) in bigram_counts:
                  bigram_counts[(sentence[y], sentence[y+1])] += 1
              else:
                  bigram_counts[(sentence[y], sentence[y+1])] = 1
      return bigram_counts
  \<close>
  For an empty sentence \<^verbatim>\<open>range(-1)\<close> is empty, as is \<open>[0..<0 - 1]\<close> on \<open>nat\<close>; every
  index read is below \<^verbatim>\<open>len(sentence)\<close>, so no read can fail.
\<close>

definition bigram_sentence :: "('a \<times> 'a, int) dict \<Rightarrow> 'a list \<Rightarrow> ('a \<times> 'a, int) dict" where
  "bigram_sentence d sentence =
     foldl (\<lambda>d y. count_step d (sentence ! y, sentence ! (y + 1))) d [0..<length sentence - 1]"

definition bigram_counts :: "'a list list \<Rightarrow> ('a \<times> 'a, int) dict" where
  "bigram_counts sequences = foldl bigram_sentence [] sequences"

text \<open>
  \<^verbatim>\<open>
  def starting_counts(sequences):
      starting_counts = {}
      for i, sentence in enumerate(sequences):
          if sentence[0] in starting_counts: starting_counts[sentence[0]] += 1
          else: starting_counts[sentence[0]] = 1
      return starting_counts
  \<close>
  \<^verbatim>\<open>sentence[0]\<close> raises \<^verbatim>\<open>IndexError\<close> on an empty sentence.
\<close>

fun starting_loop :: "'a list list \<Rightarrow> ('a, int) dict \<Rightarrow> py_error + ('a, int) dict" where
  "starting_loop [] d = Inr d"
| "starting_loop (sentence # rest) d =
     err_bind (py_index sentence 0) (\<lambda>k. starting_loop rest (count_step d k))"

definition starting_counts :: "'a list list \<Rightarrow> py_error + ('a, int) dict" where
  "starting_counts sequences = starting_loop sequences []"

text \<open>
  \<^verbatim>\<open>
  def ending_counts(sequences):
      ending_counts = {}
      for i, sentence in enumerate(sequences):
          indexVal = len(sentence) -1
          if sentence[indexVal] in ending_counts: ending_counts[sentence[indexVal]] += 1
          else: ending_counts[sentence[indexVal]] = 1
      return ending_counts
  \<close>
  On an empty sentence \<^verbatim>\<open>indexVal\<close> is \<open>-1\<close> and \<^verbatim>\<open>sentence[-1]\<close> raises
  \<^verbatim>\<open>IndexError\<close>; otherwise the index is the last position.
\<close>

fun ending_loop :: "'a list list \<Rightarrow> ('a, int) dict \<Rightarrow> py_error + ('a, int) dict" where
  "ending_loop [] d = Inr d"
| "ending_loop (sentence # rest) d =
     err_bind (if sentence = [] then Inl IndexError else py_index sentence (length sentence - 1))
       (\<lambda>k. ending_loop rest (count_step d k))"

definition ending_counts :: "'a list list \<Rightarrow> py_error + ('a, int) dict" where
  "ending_counts sequences = ending_loop sequences []"

section \<open>Unknown-word policy\<close>

text \<open>
  \<^verbatim>\<open>
  def replace_unknown(sequence):
      return [w if w in data.training_set.vocab else 'nan' for w in sequence]
  \<close>
  \<^verbatim>\<open>data.training_set.vocab\<close> is a global of the notebook, built by the helper class
  \<^verbatim>\<open>Dataset\<close>; it is the parameter \<open>vocab\<close> here.
\<close>

definition replace_unknown :: "string set \<Rightarrow> string list \<Rightarrow> string list" where
  "replace_unknown vocab sequence = map (\<lambda>w. if w \<in> vocab then w else ''nan'') sequence"

section \<open>Baseline tagger\<close>

text \<open>
  Python's \<^verbatim>\<open>max(xs, key=f)\<close>: \<^verbatim>\<open>ValueError\<close> on an empty iterable; otherwise
  the key of every element is computed once, and the running maximum is replaced only by
  an element with a strictly greater key, so the first maximal element is returned.
\<close>

fun py_max_loop :: "('a \<Rightarrow> py_error + int) \<Rightarrow> 'a \<Rightarrow> int \<Rightarrow> 'a list \<Rightarrow> py_error + 'a" where
  "py_max_loop key best best_val [] = Inr best"
| "py_max_loop key best best_val (k # ks) =
     err_bind (key k) (\<lambda>v.
       if v > best_val then py_max_loop key k v ks else py_max_loop key best best_val ks)"

definition py_max :: "'a list \<Rightarrow> ('a \<Rightarrow> py_error + int) \<Rightarrow> py_error + 'a" where
  "py_max xs key =
     (case xs of [] \<Rightarrow> Inl ValueError
      | x # rest \<Rightarrow> err_bind (key x) (\<lambda>v. py_max_loop key x v rest))"

text \<open>
  \<^verbatim>\<open>
  word_counts = pair_counts(data.training_set.X, data.training_set.Y)
  mfc_table = {}
  for word in data.training_set.vocab:
      tag_val = max(word_counts[word].keys(), key = (lambda k: word_counts[word][k]))
      mfc_table[word] = tag_val
  mfc_model = MFCTagger(mfc_table)
  \<close>
  \<^verbatim>\<open>vocab\<close> is a \<^verbatim>\<open>frozenset\<close> whose iteration order is not fixed; the loop takes
  the words in the order of the list \<open>vocab\<close>.
\<close>

fun mfc_loop ::
  "(string, (string, int) dict) dict \<Rightarrow> string list \<Rightarrow> (string, string) dict
     \<Rightarrow> py_error + (string, string) dict" where
  "mfc_loop word_counts [] mfc_table = Inr mfc_table"
| "mfc_loop word_counts (word # rest) mfc_table =
     err_bind (dict_getitem word_counts word) (\<lambda>inner.
     err_bind (py_max (dict_keys inner)
                 (\<lambda>k. err_bind (dict_getitem word_counts word) (\<lambda>inner'. dict_getitem inner' k)))
       (\<lambda>tag_val. mfc_loop word_counts rest (dict_set mfc_table word tag_val)))"

text \<open>
  The objects found in a decoded state path: plain strings (the \<^verbatim>\<open>"<start>"\<close> and
  \<^verbatim>\<open>"<end>"\<close> markers of \<^verbatim>\<open>MFCTagger\<close>) and objects with a \<^verbatim>\<open>name\<close> attribute
  (\<^verbatim>\<open>FakeState = namedtuple("FakeState", "name")\<close>, and the states of an HMM).
\<close>

datatype py_obj = PyStr string | FakeState string

definition missing :: py_obj where
  "missing = FakeState ''<MISSING>''"

text \<open>
  \<^verbatim>\<open>
  class MFCTagger:
      missing = FakeState(name="<MISSING>")
      def __init__(self, table):
          self.table = defaultdict(lambda: MFCTagger.missing)
          self.table.update({word: FakeState(name=tag) for word, tag in table.items()})
      def viterbi(self, seq):
          return 0., list(enumerate(["<start>"] + [self.table[w] for w in seq] + ["<end>"]))
  \<close>
  Reading a missing key of a \<^verbatim>\<open>defaultdict\<close> stores the default under that key, so
  \<^verbatim>\<open>viterbi\<close> changes the tagger; it returns the changed tagger with its result.
\<close>

record MFCTagger =
  table :: "(string, py_obj) dict"

definition MFCTagger_init :: "(string, string) dict \<Rightarrow> MFCTagger" where
  "MFCTagger_init tbl =
     \<lparr>table = foldl (\<lambda>d (word, tag). dict_set d word (FakeState tag)) [] tbl\<rparr>"

definition defaultdict_getitem ::
  "(string, py_obj) dict \<Rightarrow> string \<Rightarrow> (string, py_obj) dict \<times> py_obj" where
  "defaultdict_getitem d w =
     (case map_of d w of Some v \<Rightarrow> (d, v) | None \<Rightarrow> (dict_set d w missing, missing))"

fun table_lookups ::
  "(string, py_obj) dict \<Rightarrow> string list \<Rightarrow> (string, py_obj) dict \<times> py_obj list" where
  "table_lookups d [] = (d, [])"
| "table_lookups d (w # ws) =
     (let (d1, v) = defaultdict_getitem d w; (d2, vs) = table_lookups d1 ws in (d2, v # vs))"

definition viterbi :: "MFCTagger \<Rightarrow> string list \<Rightarrow> MFCTagger \<times> (rat \<times> (nat \<times> py_obj) list)" where
  "viterbi self seq =
     (let (d, tags) = table_lookups (table self) seq
      in (self\<lparr>table := d\<rparr>, (0, enumerate 0 ([PyStr ''<start>''] @ tags @ [PyStr ''<end>'']))))"

definition mfc_model :: "string list \<Rightarrow> string list list \<Rightarrow> string list list \<Rightarrow> py_error + MFCTagger" where
  "mfc_model vocab X Y =
     err_bind (pair_counts X Y) (\<lambda>word_counts.
     err_bind (mfc_loop word_counts vocab []) (\<lambda>mfc_table. Inr (MFCTagger_init mfc_table)))"

section \<open>Decoding and evaluation\<close>

text \<open>
  \<^verbatim>\<open>
  def simplify_decoding(X, model):
      _, state_path = model.viterbi(replace_unknown(X))
      return [state[1].name for state in state_path[1:-1]]
  \<close>
  The model is any object with a \<^verbatim>\<open>viterbi\<close> method: a function from the model and
  the observations to the model afterwards and either an exception or a pair of a score and
  a state path. An HMM of the library returns \<^verbatim>\<open>None\<close> as the path of a sequence it
  cannot decode; slicing \<^verbatim>\<open>None\<close> raises \<^verbatim>\<open>TypeError\<close>. A string has no attribute
  \<^verbatim>\<open>name\<close>. \<^verbatim>\<open>p[1:-1]\<close> drops the first and the last element and is empty for a path
  of fewer than three elements.
\<close>

type_synonym ('m, 's) viterbi_method =
  "'m \<Rightarrow> string list \<Rightarrow> 'm \<times> (py_error + ('s \<times> (nat \<times> py_obj) list option))"

definition py_name :: "py_obj \<Rightarrow> py_error + string" where
  "py_name obj = (case obj of PyStr s \<Rightarrow> Inl AttributeError | FakeState n \<Rightarrow> Inr n)"

fun names_of :: "(nat \<times> py_obj) list \<Rightarrow> py_error + string list" where
  "names_of [] = Inr []"
| "names_of (state # rest) =
     err_bind (py_name (snd state)) (\<lambda>n. err_bind (names_of rest) (\<lambda>ns. Inr (n # ns)))"

definition simplify_decoding ::
  "string set \<Rightarrow> ('m, 's) viterbi_method \<Rightarrow> string list \<Rightarrow> 'm \<Rightarrow> 'm \<times> (py_error + string list)" where
  "simplify_decoding vocab vit X model =
     (let (model', r) = vit model (replace_unknown vocab X)
      in (model', err_bind r (\<lambda>(score, state_path).
            case state_path of None \<Rightarrow> Inl TypeError
            | Some p \<Rightarrow> names_of (butlast (tl p)))))"

text \<open>The \<^verbatim>\<open>viterbi\<close> method of \<^verbatim>\<open>MFCTagger\<close> seen through that interface.\<close>

definition mfc_viterbi :: "(MFCTagger, rat) viterbi_method" where
  "mfc_viterbi self seq = (let (self', (score, p)) = viterbi self seq in (self', Inr (score, Some p)))"

text \<open>
  \<^verbatim>\<open>
  def accuracy(X, Y, model):
      correct = total_predictions = 0
      for observations, actual_tags in zip(X, Y):
          try:
              most_likely_tags = simplify_decoding(observations, model)
              correct += sum(p == t for p, t in zip(most_likely_tags, actual_tags))
          except:
              pass
          total_predictions += len(observations)
      return correct / total_predictions
  \<close>
\<close>

definition matches :: "string list \<Rightarrow> string list \<Rightarrow> int" where
  "matches most_likely_tags actual_tags =
     int (length (filter (\<lambda>(p, t). p = t) (zip most_likely_tags actual_tags)))"

fun accuracy_loop ::
  "string set \<Rightarrow> ('m, 's) viterbi_method \<Rightarrow> 'm \<Rightarrow> int \<Rightarrow> int
     \<Rightarrow> (string list \<times> string list) list \<Rightarrow> 'm \<times> int \<times> int" where
  "accuracy_loop vocab vit model correct total_predictions [] =
     (model, correct, total_predictions)"
| "accuracy_loop vocab vit model correct total_predictions ((observations, actual_tags) # rest) =
     (let (model', r) = simplify_decoding vocab vit observations model;
          correct' = (case r of Inl e \<Rightarrow> correct
                      | Inr most_likely_tags \<Rightarrow> correct + matches most_likely_tags actual_tags)
      in accuracy_loop vocab vit model' correct'
           (total_predictions + int (length observations)) rest)"

definition accuracy ::
  "string set \<Rightarrow> ('m, 's) viterbi_method \<Rightarrow> string list list \<Rightarrow> string list list \<Rightarrow> 'm
     \<Rightarrow> 'm \<times> (py_error + rat)" where
  "accuracy vocab vit X Y model =
     (let (model', correct, total_predictions) = accuracy_loop vocab vit model 0 0 (zip X Y)
      in (model', py_truediv correct total_predictions))"

section \<open>Model builder\<close>

text \<open>
  The HMM class is the third-party library \<^verbatim>\<open>pomegranate\<close>. The model keeps what the
  notebook hands to it: the states in the order of the \<^verbatim>\<open>add_state\<close> calls and one edge
  for every \<^verbatim>\<open>add_transition\<close> call, in call order. \<^verbatim>\<open>bake()\<close> belongs to the library
  and is not modelled.
\<close>

datatype state = State (state_distribution: "(string, rat) dict") (state_name: string)

datatype node = ModelStart | ModelEnd | Node state

record HiddenMarkovModel =
  hmm_states :: "state list"
  hmm_edges :: "(node \<times> node \<times> rat) list"

definition add_state :: "HiddenMarkovModel \<Rightarrow> state \<Rightarrow> HiddenMarkovModel" where
  "add_state m s = m\<lparr>hmm_states := hmm_states m @ [s]\<rparr>"

definition add_transition :: "HiddenMarkovModel \<Rightarrow> node \<Rightarrow> node \<Rightarrow> rat \<Rightarrow> HiddenMarkovModel" where
  "add_transition m a b prob = m\<lparr>hmm_edges := hmm_edges m @ [(a, b, prob)]\<rparr>"

text \<open>The global tables the build cell reads.\<close>

record tables =
  emission_counts :: "(string, (string, int) dict) dict"
  tag_unigrams :: "(string, int) dict"
  tag_bigrams :: "(string \<times> string, int) dict"
  tag_starts :: "(string, int) dict"
  tag_ends :: "(string, int) dict"
  len_data_y :: int

text \<open>
  \<^verbatim>\<open>
  basic_model = HiddenMarkovModel(name="base-hmm-tagger")
  states = {}
  for tag in emission_counts:
      prob_dct = {}
      total = tag_unigrams[tag]
      prob_dist = {key: value / total for key, value in emission_counts[tag].items()}
      tag_distribution = DiscreteDistribution(prob_dist)
      temp_state = State(tag_distribution, name=tag)
      states[tag] = temp_state
      basic_model.add_state(states[tag])
  \<close>
\<close>

fun prob_dist_of :: "(string, rat) dict \<Rightarrow> (string, int) dict \<Rightarrow> int \<Rightarrow> py_error + (string, rat) dict" where
  "prob_dist_of acc [] total_n = Inr acc"
| "prob_dist_of acc ((key, val) # items) total_n =
     err_bind (py_truediv val total_n) (\<lambda>p. prob_dist_of (dict_set acc key p) items total_n)"

fun states_loop ::
  "tables \<Rightarrow> string list \<Rightarrow> (string, state) dict \<times> HiddenMarkovModel
     \<Rightarrow> py_error + ((string, state) dict \<times> HiddenMarkovModel)" where
  "states_loop T [] (states, basic_model) = Inr (states, basic_model)"
| "states_loop T (tag # rest) (states, basic_model) =
     err_bind (dict_getitem (tag_unigrams T) tag) (\<lambda>total_n.
     err_bind (dict_getitem (emission_counts T) tag) (\<lambda>items.
     err_bind (prob_dist_of [] items total_n) (\<lambda>prob_dist.
       let temp_state = State prob_dist tag;
           states' = dict_set states tag temp_state
       in err_bind (dict_getitem states' tag) (\<lambda>s.
            states_loop T rest (states', add_state basic_model s)))))"

text \<open>
  \<^verbatim>\<open>
  for bigram in tag_bigrams.keys():
      len_data_y = len(data.training_set.Y)
      b0 = bigram[0]
      b1 = bigram[1]
      prob =  tag_starts[b0] / len_data_y
      basic_model.add_transition(basic_model.start, states[b0], prob)
      prob = tag_bigrams[bigram] / tag_unigrams[b0]
      basic_model.add_transition(states[b0], states[b1], prob)
      prob = tag_ends[b0] / len_data_y
      basic_model.add_transition(states[b0], basic_model.end, prob)
  basic_model.bake()
  \<close>
  Every subscript and every division is evaluated in the order of the source, and the
  first one that raises ends the build.
\<close>

fun transitions_loop ::
  "tables \<Rightarrow> (string, state) dict \<Rightarrow> (string \<times> string) list \<Rightarrow> HiddenMarkovModel
     \<Rightarrow> py_error + HiddenMarkovModel" where
  "transitions_loop T states [] basic_model = Inr basic_model"
| "transitions_loop T states (bigram # rest) basic_model =
     (let b0 = fst bigram; b1 = snd bigram in
      err_bind (dict_getitem (tag_starts T) b0) (\<lambda>c_start.
      err_bind (py_truediv c_start (len_data_y T)) (\<lambda>prob_start.
      err_bind (dict_getitem states b0) (\<lambda>s0.
      let m1 = add_transition basic_model ModelStart (Node s0) prob_start in
      err_bind (dict_getitem (tag_bigrams T) bigram) (\<lambda>c_bigram.
      err_bind (dict_getitem (tag_unigrams T) b0) (\<lambda>c_unigram.
      err_bind (py_truediv c_bigram c_unigram) (\<lambda>prob_trans.
      err_bind (dict_getitem states b0) (\<lambda>s0'.
      err_bind (dict_getitem states b1) (\<lambda>s1.
      let m2 = add_transition m1 (Node s0') (Node s1) prob_trans in
      err_bind (dict_getitem (tag_ends T) b0) (\<lambda>c_end.
      err_bind (py_truediv c_end (len_data_y T)) (\<lambda>prob_end.
      err_bind (dict_getitem states b0) (\<lambda>s0''.
        transitions_loop T states rest
          (add_transition m2 (Node s0'') ModelEnd prob_end)))))))))))))"

definition build_model :: "tables \<Rightarrow> py_error + HiddenMarkovModel" where
  "build_model T =
     err_bind (states_loop T (dict_keys (emission_counts T)) ([], \<lparr>hmm_states = [], hmm_edges = []\<rparr>))
       (\<lambda>(states, basic_model). transitions_loop T states (dict_keys (tag_bigrams T)) basic_model)"

text \<open>
  The tables of the training set, as the cells above the build compute them:
  \<^verbatim>\<open>emission_counts = pair_counts(data.training_set.Y, data.training_set.X)\<close>,
  \<^verbatim>\<open>tag_unigrams = unigram_counts(data.training_set.Y)\<close>,
  \<^verbatim>\<open>tag_bigrams = bigram_counts(data.training_set.Y)\<close>,
  \<^verbatim>\<open>tag_starts = starting_counts(data.training_set.Y)\<close>,
  \<^verbatim>\<open>tag_ends = ending_counts(data.training_set.Y)\<close>.
\<close>

definition training_tables :: "string list list \<Rightarrow> string list list \<Rightarrow> py_error + tables" where
  "training_tables X Y =
     err_bind (pair_counts Y X) (\<lambda>em.
     err_bind (starting_counts Y) (\<lambda>st.
     err_bind (ending_counts Y) (\<lambda>en.
       Inr \<lparr>emission_counts = em, tag_unigrams = unigram_counts Y,
            tag_bigrams = bigram_counts Y, tag_starts = st, tag_ends = en,
            len_data_y = int (length Y)\<rparr>)))"

definition basic_model :: "string list list \<Rightarrow> string list list \<Rightarrow> py_error + HiddenMarkovModel" where
  "basic_model X Y = err_bind (training_tables X Y) build_model"

section \<open>Notions used in the statements\<close>

text \<open>One pass of the inner loop of \<^verbatim>\<open>pair_counts\<close> on the pair \<open>(s_A, t)\<close>.\<close>

definition pair_step :: "('a, ('b, int) dict) dict \<Rightarrow> 'a \<times> 'b \<Rightarrow> ('a, ('b, int) dict) dict" where
  "pair_step r p = pair_counts_step r (fst p) (snd p)"

text \<open>
  \<open>covered A B\<close>: every read \<^verbatim>\<open>sequences_B[x1][x2]\<close> that \<^verbatim>\<open>pair_counts(A, B)\<close>
  makes is in range. A sentence of \<open>A\<close> that is empty makes no read at all.
\<close>

fun covered :: "'a list list \<Rightarrow> 'b list list \<Rightarrow> bool" where
  "covered [] B = True"
| "covered (s # A) [] = (s = [] \<and> covered A [])"
| "covered (s # A) (b # B) = (length s \<le> length b \<and> covered A B)"

text \<open>The sum of all stored counts, entry by entry.\<close>

definition entry_total :: "('a, ('b, int) dict) dict \<Rightarrow> int" where
  "entry_total results = sum_list (map (\<lambda>p. sum_list (map snd (snd p))) results)"

text \<open>A nested dictionary has no key twice, at either level.\<close>

definition wf2 :: "('a, ('b, int) dict) dict \<Rightarrow> bool" where
  "wf2 r = (distinct (map fst r) \<and> (\<forall>p \<in> set r. distinct (map fst (snd p))))"

text \<open>
  The outcomes of \<^verbatim>\<open>simplify_decoding\<close> on the sentences of \<open>X\<close>, in the order in
  which the loop of \<^verbatim>\<open>accuracy\<close> calls it, each call on the model the previous one
  left behind: \<open>Inl\<close> for a sentence whose decoding raised.
\<close>

fun decode_all ::
  "string set \<Rightarrow> ('m, 's) viterbi_method \<Rightarrow> 'm \<Rightarrow> string list list
     \<Rightarrow> (py_error + string list) list" where
  "decode_all vocab vit model [] = []"
| "decode_all vocab vit model (observations # rest) =
     (let (model', r) = simplify_decoding vocab vit observations model
      in r # decode_all vocab vit model' rest)"

text \<open>What one sentence adds to \<^verbatim>\<open>correct\<close>: nothing when its decoding raised.\<close>

definition sentence_score :: "py_error + string list \<Rightarrow> string list \<Rightarrow> int" where
  "sentence_score r actual_tags =
     (case r of Inl e \<Rightarrow> 0 | Inr most_likely_tags \<Rightarrow> matches most_likely_tags actual_tags)"

text \<open>The keys that the inner loop of \<^verbatim>\<open>bigram_counts\<close> visits in one sentence.\<close>

definition adjacent :: "'a list \<Rightarrow> ('a \<times> 'a) list" where
  "adjacent sentence = map (\<lambda>y. (sentence ! y, sentence ! (y + 1))) [0..<length sentence - 1]"

text \<open>
  What a lookup \<^verbatim>\<open>self.table[w]\<close> of the \<^verbatim>\<open>defaultdict\<close> yields: the stored
  state, or the default for a key that is not stored.
\<close>

definition table_get :: "(string, py_obj) dict \<Rightarrow> string \<Rightarrow> py_obj" where
  "table_get d w = (case map_of d w of Some v \<Rightarrow> v | None \<Rightarrow> missing)"

text \<open>Every inner dictionary has an entry, and every stored count is positive.\<close>

definition pos2 :: "('a, ('b, int) dict) dict \<Rightarrow> bool" where
  "pos2 r = (\<forall>a inner. map_of r a = Some inner \<longrightarrow>
               inner \<noteq> [] \<and> (\<forall>t c. map_of inner t = Some c \<longrightarrow> 0 < c))"

text \<open>
  \<open>t\<close> is a most frequent class of \<open>w\<close>: it was counted with \<open>w\<close>, and nothing was
  counted with \<open>w\<close> more often.
\<close>

definition is_mfc :: "('a, ('b, int) dict) dict \<Rightarrow> 'a \<Rightarrow> 'b \<Rightarrow> bool" where
  "is_mfc wc w t = (0 < count_of2 wc w t \<and> (\<forall>t'. count_of2 wc w t' \<le> count_of2 wc w t))"






section \<open>Properties of dictionaries\<close>

lemma map_of_dict_set: "map_of (dict_set d k v) = (map_of d)(k \<mapsto> v)"
  by (simp add: dict_set_def AList.update_conv')

lemma distinct_dict_set: "distinct (map fst d) \<Longrightarrow> distinct (map fst (dict_set d k v))"
  by (simp add: dict_set_def AList.distinct_update)

lemma set_dict_set: "set (dict_set d k v) \<subseteq> insert (k, v) (set d)"
  unfolding dict_set_def by (induction d) auto

lemma keys_dict_set: "set (map fst (dict_set d k v)) = insert k (set (map fst d))"
  unfolding dict_set_def by (induction d) auto

lemma sum_dict_set_Some:
  "map_of d k = Some v0 \<Longrightarrow>
   sum_list (map f (dict_set d k v)) = sum_list (map f d) - f (k, v0) + (f (k, v) :: int)"
  unfolding dict_set_def by (induction d) (auto split: if_splits)

lemma sum_dict_set_None:
  "map_of d k = None \<Longrightarrow> sum_list (map f (dict_set d k v)) = sum_list (map f d) + (f (k, v) :: int)"
  unfolding dict_set_def by (induction d) (auto split: if_splits)

lemma distinct_map_of_fst:
  "distinct (map fst d) \<Longrightarrow> p \<in> set d \<Longrightarrow> map_of d (fst p) = Some (snd p)"
  by (cases p) simp

lemma count_of_keys: "distinct (map fst d) \<Longrightarrow> map (count_of d) (dict_keys d) = map snd d"
  unfolding dict_keys_def count_of_def by (auto simp: distinct_map_of_fst)

lemma sum_count_of_keys:
  "distinct (map fst d) \<Longrightarrow> sum_list (map (count_of d) (map fst d)) = sum_list (map snd d)"
  using count_of_keys[of d] by (simp only: dict_keys_def)

lemma int_length_concat: "int (length (concat A)) = (\<Sum>s\<leftarrow>A. int (length s))"
  by (induction A) simp_all

section \<open>\<^verbatim>\<open>pair_counts\<close>\<close>

lemma pair_step_pair: "pair_step r (a, t) = pair_counts_step r a t"
  by (simp add: pair_step_def)

lemma entry_total_Nil: "entry_total [] = 0"
  by (simp add: entry_total_def)

lemma entry_total_step: "entry_total (pair_counts_step r a t) = entry_total r + 1"
  unfolding entry_total_def pair_counts_step_def
  by (auto split: option.splits simp: sum_dict_set_Some sum_dict_set_None)

lemma entry_total_foldl: "entry_total (foldl pair_step r ps) = entry_total r + int (length ps)"
  by (induction ps arbitrary: r) (auto simp: pair_step_def entry_total_step)

lemma count_of2_step:
  "count_of2 (pair_counts_step r a t) a' t' =
     count_of2 r a' t' + (if a = a' \<and> t = t' then 1 else 0)"
  unfolding count_of2_def count_of_def pair_counts_step_def
  by (auto split: option.splits simp: map_of_dict_set)

lemma count_of2_foldl:
  "count_of2 (foldl pair_step r ps) a t = count_of2 r a t + int (count_list ps (a, t))"
  by (induction ps arbitrary: r) (auto simp: pair_step_def count_of2_step)

lemma wf2_Nil: "wf2 []"
  by (simp add: wf2_def)

lemma wf2_step: "wf2 r \<Longrightarrow> wf2 (pair_counts_step r a t)"
  unfolding wf2_def pair_counts_step_def
  by (auto split: option.splits simp: distinct_dict_set
           dest!: subsetD[OF set_dict_set] map_of_SomeD)

lemma wf2_foldl: "wf2 r \<Longrightarrow> wf2 (foldl pair_step r ps)"
  by (induction ps arbitrary: r) (auto simp: pair_step_def wf2_step)

text \<open>The inner loop either reads past the end of a sentence of \<open>B\<close> or processes its pairs.\<close>

lemma inner_cases:
  "pair_counts_inner B x1 x2 sa res =
     (if sa = [] \<or> (x1 < length B \<and> x2 + length sa \<le> length (B ! x1))
      then Inr (foldl pair_step res (zip sa (drop x2 (B ! x1))))
      else Inl IndexError)"
proof (induction sa arbitrary: x2 res)
  case Nil
  then show ?case by simp
next
  case (Cons a sa)
  show ?case
  proof (cases "x1 < length B \<and> x2 < length (B ! x1)")
    case True
    then have d: "drop x2 (B ! x1) = (B ! x1) ! x2 # drop (Suc x2) (B ! x1)"
      by (simp add: Cons_nth_drop_Suc)
    from True show ?thesis
      by (auto simp: err_bind_def py_index_def Cons d pair_step_pair)
  next
    case False
    then show ?thesis by (auto simp: err_bind_def py_index_def)
  qed
qed

lemma outer_cases:
  "pair_counts_outer B x1 A res =
     (if covered A (drop x1 B)
      then Inr (foldl pair_step res (concat (map2 zip A (drop x1 B))))
      else Inl IndexError)"
proof (induction A arbitrary: x1 res)
  case Nil
  then show ?case by simp
next
  case (Cons s A)
  show ?case
  proof (cases "x1 < length B")
    case True
    then have d: "drop x1 B = B ! x1 # drop (Suc x1) B"
      by (simp add: Cons_nth_drop_Suc)
    show ?thesis
      using True by (auto simp: d inner_cases Cons err_bind_def)
  next
    case False
    then have d: "drop x1 B = []" "drop (Suc x1) B = []" by simp_all
    show ?thesis
      using False by (auto simp: d inner_cases Cons err_bind_def)
  qed
qed

lemma pair_counts_cases:
  "pair_counts A B =
     (if covered A B then Inr (foldl pair_step [] (concat (map2 zip A B))) else Inl IndexError)"
  by (simp add: pair_counts_def outer_cases)

lemma covered_index:
  "covered A B \<longleftrightarrow>
     (\<forall>i<length A. A ! i = [] \<or> (i < length B \<and> length (A ! i) \<le> length (B ! i)))"
proof (induction A B rule: covered.induct)
  case (1 B)
  then show ?case by simp
next
  case (2 s A)
  then show ?case by (auto simp: All_less_Suc2)
next
  case (3 s A b B)
  then show ?case by (auto simp: All_less_Suc2)
qed

lemma covered_parallel: "list_all2 (\<lambda>a b. length a = length b) A B \<Longrightarrow> covered A B"
  by (induction rule: list_all2_induct) auto

lemma length_concat_zip:
  "list_all2 (\<lambda>a b. length a = length b) A B \<Longrightarrow>
   length (concat (map2 zip A B)) = length (concat A)"
  by (induction rule: list_all2_induct) auto

lemma total_count_entry: "wf2 r \<Longrightarrow> total_count r = entry_total r"
proof -
  assume w: "wf2 r"
  have "map (\<lambda>a. sum_list (map (\<lambda>b. count_of2 r a b)
                       (case map_of r a of None \<Rightarrow> [] | Some inner \<Rightarrow> dict_keys inner)))
                   (dict_keys r) = map (\<lambda>p. sum_list (map snd (snd p))) r"
    unfolding dict_keys_def map_map
  proof (rule map_cong[OF refl])
    fix p assume p: "p \<in> set r"
    with w have m: "map_of r (fst p) = Some (snd p)" and d: "distinct (map fst (snd p))"
      by (auto simp: wf2_def distinct_map_of_fst)
    have c: "count_of2 r (fst p) = count_of (snd p)"
      by (rule ext) (simp add: count_of2_def m)
    show "((\<lambda>a. sum_list (map (count_of2 r a)
                       (case map_of r a of None \<Rightarrow> [] | Some inner \<Rightarrow> map fst inner))) \<circ> fst) p
        = sum_list (map snd (snd p))"
      unfolding o_apply m option.case c by (rule sum_count_of_keys[OF d])
  qed
  then show ?thesis by (simp add: total_count_def entry_total_def)
qed

text \<open>
  Claim C4. For parallel collections \<open>seqA\<close>, \<open>seqB\<close> (as many sentences in one as in the
  other, and each sentence of \<open>seqA\<close> as long as its partner in \<open>seqB\<close>), \<^verbatim>\<open>pair_counts\<close>
  returns a nested counter whose counts, summed over all outer keys and all inner keys,
  give the number of tokens of the input.
\<close>

theorem pair_counts_total:
  assumes "list_all2 (\<lambda>a b. length a = length b) seqA seqB"
  shows "\<exists>r. pair_counts seqA seqB = Inr r \<and> total_count r = (\<Sum>s\<leftarrow>seqA. int (length s))"
proof -
  let ?ps = "concat (map2 zip seqA seqB)"
  let ?r = "foldl pair_step [] ?ps"
  have r: "pair_counts seqA seqB = Inr ?r"
    using covered_parallel[OF assms] by (simp add: pair_counts_cases)
  have "total_count ?r = entry_total ?r"
    by (rule total_count_entry) (rule wf2_foldl[OF wf2_Nil])
  also have "\<dots> = int (length ?ps)"
    by (simp add: entry_total_foldl entry_total_Nil)
  also have "\<dots> = int (length (concat seqA))"
    by (simp add: length_concat_zip[OF assms])
  also have "\<dots> = (\<Sum>s\<leftarrow>seqA. int (length s))"
    by (rule int_length_concat)
  finally show ?thesis using r by blast
qed

theorem pair_counts_total_witness:
  "list_all2 (\<lambda>a b. length a = length b)
     [[''See'', ''Spot'', ''run''], [''Spot'', ''ran'']]
     [[''VERB'', ''NOUN'', ''VERB''], [''NOUN'', ''VERB'']] \<and>
   (\<exists>r. pair_counts [[''See'', ''Spot'', ''run''], [''Spot'', ''ran'']]
           [[''VERB'', ''NOUN'', ''VERB''], [''NOUN'', ''VERB'']] = Inr r \<and> total_count r = 5)"
proof -
  have h: "list_all2 (\<lambda>a b. length a = length b)
     [[''See'', ''Spot'', ''run''], [''Spot'', ''ran'']]
     [[''VERB'', ''NOUN'', ''VERB''], [''NOUN'', ''VERB'']]"
    by simp
  show ?thesis using h pair_counts_total[OF h] by simp
qed

section \<open>\<^verbatim>\<open>replace_unknown\<close>\<close>

text \<open>
  Claim C3. \<^verbatim>\<open>replace_unknown\<close> returns a sequence of the length of its input; at
  every position a word of the training vocabulary is kept and any other word is replaced
  by the sentinel \<^verbatim>\<open>'nan'\<close>.
\<close>

theorem replace_unknown_spec:
  "length (replace_unknown vocab sequence) = length sequence \<and>
   (\<forall>i<length sequence.
      replace_unknown vocab sequence ! i =
        (if sequence ! i \<in> vocab then sequence ! i else ''nan''))"
  by (simp add: replace_unknown_def)

theorem replace_unknown_spec_witness:
  "length (replace_unknown {''Spot'', ''ran''} [''Spot'', ''sat'']) = 2 \<and>
   replace_unknown {''Spot'', ''ran''} [''Spot'', ''sat''] ! 0 = ''Spot'' \<and>
   replace_unknown {''Spot'', ''ran''} [''Spot'', ''sat''] ! 1 = ''nan''"
  using replace_unknown_spec[of "{''Spot'', ''ran''}" "[''Spot'', ''sat'']"]
  by (simp add: All_less_Suc2 numeral_2_eq_2)

section \<open>Counters\<close>

lemma unigram_as_foldl: "unigram_counts seqs = foldl count_step [] (concat seqs)"
  unfolding unigram_counts_def by (induction seqs rule: rev_induct) auto

lemma map_of_count_step:
  "map_of (count_step d k) = (map_of d)(k \<mapsto> count_of d k + 1)"
  by (auto simp: count_step_def count_of_def map_of_dict_set split: option.splits)

lemma count_of_count_step: "count_of (count_step d k) k' = count_of d k' + (if k = k' then 1 else 0)"
  by (simp add: count_of_def map_of_count_step)

lemma count_of_foldl: "count_of (foldl count_step d ks) k = count_of d k + int (count_list ks k)"
  by (induction ks arbitrary: d) (auto simp: count_of_count_step)

lemma dict_keys_dict_set: "set (dict_keys (dict_set d k v)) = insert k (set (dict_keys d))"
  unfolding dict_keys_def by (rule keys_dict_set)


lemma keys_count_step: "set (dict_keys (count_step d k)) = insert k (set (dict_keys d))"
  by (cases "map_of d k") (simp_all add: count_step_def dict_keys_dict_set)

lemma keys_foldl: "set (dict_keys (foldl count_step d ks)) = set (dict_keys d) \<union> set ks"
  by (induction ks arbitrary: d) (auto simp: keys_count_step)



lemma bigram_sentence_foldl: "bigram_sentence d s = foldl count_step d (adjacent s)"
  by (simp add: bigram_sentence_def adjacent_def foldl_map)

lemma bigram_as_foldl: "bigram_counts seqs = foldl count_step [] (concat (map adjacent seqs))"
  unfolding bigram_counts_def by (induction seqs rule: rev_induct) (auto simp: bigram_sentence_foldl)

lemma count_list_concat: "count_list (concat xss) x = (\<Sum>xs\<leftarrow>xss. count_list xs x)"
  by (induction xss) auto

lemma count_list_map: "count_list (map f xs) y = length (filter (\<lambda>x. f x = y) xs)"
  by (induction xs) auto

lemma count_list_adjacent:
  "count_list (adjacent s) (a, b) = length (filter (\<lambda>k. s ! k = a \<and> s ! (k + 1) = b) [0..<length s - 1])"
  unfolding adjacent_def by (simp add: count_list_map)


section \<open>\<^verbatim>\<open>accuracy\<close>\<close>

lemma accuracy_loop_total:
  "snd (snd (accuracy_loop vocab vit m c t ps)) = t + (\<Sum>p\<leftarrow>ps. int (length (fst p)))"
  by (induction ps arbitrary: m c t) (auto split: prod.splits)

lemma accuracy_loop_correct:
  "fst (snd (accuracy_loop vocab vit m c t (zip X Y))) =
     c + sum_list (map2 sentence_score (decode_all vocab vit m X) Y)"
proof (induction X arbitrary: Y m c t)
  case Nil
  then show ?case by simp
next
  case (Cons x X)
  show ?case
  proof (cases Y)
    case Nil
    then show ?thesis by (simp split: prod.splits)
  next
    case (Cons y Y')
    then show ?thesis
      by (auto simp: Cons.IH sentence_score_def split: prod.splits sum.splits)
  qed
qed

lemma zip_fst_total:
  "length X = length Y \<Longrightarrow>
   (\<Sum>p\<leftarrow>zip X Y. int (length (fst p))) = (\<Sum>s\<leftarrow>X. int (length s))"
  by (induction X Y rule: list_induct2) auto

lemma zip_empty_total:
  "\<forall>s \<in> set X. s = [] \<Longrightarrow> (\<Sum>p\<leftarrow>zip X Y. int (length (fst p))) = 0"
proof (induction X arbitrary: Y)
  case Nil
  then show ?case by simp
next
  case (Cons x X)
  then show ?case by (cases Y) auto
qed

lemma tokens_pos: "concat X \<noteq> [] \<Longrightarrow> (\<Sum>s\<leftarrow>X. int (length s)) \<noteq> 0"
proof -
  assume "concat X \<noteq> []"
  then have "int (length (concat X)) \<noteq> 0" by (simp del: concat_eq_Nil_conv)
  then show ?thesis unfolding int_length_concat .
qed

text \<open>The value of \<^verbatim>\<open>accuracy\<close> on any input: the final division of the two counters.\<close>

lemma accuracy_value:
  "snd (accuracy vocab vit X Y model) =
     py_truediv (sum_list (map2 sentence_score (decode_all vocab vit model X) Y))
                (\<Sum>p\<leftarrow>zip X Y. int (length (fst p)))"
proof -
  obtain m' c t where l: "accuracy_loop vocab vit model 0 0 (zip X Y) = (m', c, t)"
    by (cases "accuracy_loop vocab vit model 0 0 (zip X Y)") auto
  have "c = sum_list (map2 sentence_score (decode_all vocab vit model X) Y)"
    using accuracy_loop_correct[of vocab vit model 0 0 X Y] by (simp add: l)
  moreover have "t = (\<Sum>p\<leftarrow>zip X Y. int (length (fst p)))"
    using accuracy_loop_total[of vocab vit model 0 0 "zip X Y"] by (simp add: l)
  ultimately show ?thesis by (simp add: accuracy_def l)
qed

text \<open>
  Claim C2, as stated, fails on the empty collection: the loop body never runs, both
  counters stay \<open>0\<close> and the final division raises \<^verbatim>\<open>ZeroDivisionError\<close> instead of
  returning a ratio.
\<close>

theorem accuracy_empty_collection:
  "snd (accuracy {''Spot''} mfc_viterbi [] [] \<lparr>table = [(''Spot'', FakeState ''NOUN'')]\<rparr>)
     = Inl ZeroDivisionError"
  by (simp add: accuracy_def py_truediv_def)

text \<open>
  Claim C2, amended. For collections \<open>X\<close> and \<open>Y\<close> with as many sentences in one as in the
  other and at least one token in \<open>X\<close>, and for every model, \<^verbatim>\<open>accuracy\<close> returns
  \<open>correct / total\<close>: \<open>total\<close> is the number of tokens of all sentences of \<open>X\<close>, also of
  those whose decoding raised; \<open>correct\<close> adds, for each sentence that was decoded, the
  positions where prediction and actual tag agree, and nothing for a sentence whose
  decoding raised. No exception of a decoding leaves the loop: the result is a value.
\<close>

theorem accuracy_ratio:
  assumes "length X = length Y" and "concat X \<noteq> []"
  shows "snd (accuracy vocab vit X Y model) =
     Inr (of_int (sum_list (map2 (\<lambda>r actual_tags.
                     case r of Inl e \<Rightarrow> 0
                     | Inr most_likely_tags \<Rightarrow> matches most_likely_tags actual_tags)
                   (decode_all vocab vit model X) Y))
          / of_int (\<Sum>observations\<leftarrow>X. int (length observations)))"
  using tokens_pos[OF assms(2)]
  by (simp add: accuracy_value zip_fst_total[OF assms(1)] py_truediv_def
        sentence_score_def[abs_def])

text \<open>
  A model that decodes \<^verbatim>\<open>['Spot']\<close> and returns no path for any other sequence, as
  the HMM of the library does for a sequence it cannot decode: the second sentence raises
  inside the \<^verbatim>\<open>try\<close>, scores nothing and still counts its token.
\<close>

theorem accuracy_ratio_witness:
  "length [[''Spot''], [''sat'']] = length [[''NOUN''], [''VERB'']] \<and>
   concat [[''Spot''], [''sat'']] \<noteq> [] \<and>
   decode_all {''Spot''}
     (\<lambda>m seq. (m, Inr (0 :: rat,
        if seq = [''Spot'']
        then Some [(0, PyStr ''<start>''), (1, FakeState ''NOUN''), (2, PyStr ''<end>'')]
        else None)))
     () [[''Spot''], [''sat'']] = [Inr [''NOUN''], Inl TypeError] \<and>
   snd (accuracy {''Spot''}
     (\<lambda>m seq. (m, Inr (0 :: rat,
        if seq = [''Spot'']
        then Some [(0, PyStr ''<start>''), (1, FakeState ''NOUN''), (2, PyStr ''<end>'')]
        else None)))
     [[''Spot''], [''sat'']] [[''NOUN''], [''VERB'']] ()) = Inr (1 / 2)"
  using accuracy_ratio[of "[[''Spot''], [''sat'']]" "[[''NOUN''], [''VERB'']]" "{''Spot''}"
      "\<lambda>m seq. (m, Inr (0 :: rat,
        if seq = [''Spot'']
        then Some [(0, PyStr ''<start>''), (1, FakeState ''NOUN''), (2, PyStr ''<end>'')]
        else None))" "()"]
  by (simp add: simplify_decoding_def replace_unknown_def err_bind_def py_name_def matches_def)

text \<open>
  Claim C10. \<^verbatim>\<open>accuracy\<close> divides by the token total without a guard: whenever
  the collection of word sequences is empty or holds only empty sentences, whatever the
  tags and the model, it raises \<^verbatim>\<open>ZeroDivisionError\<close>.
\<close>

theorem accuracy_zero_division:
  assumes "\<forall>observations \<in> set X. observations = []"
  shows "snd (accuracy vocab vit X Y model) = Inl ZeroDivisionError"
proof -
  have "(\<Sum>p\<leftarrow>zip X Y. int (length (fst p))) = 0"
    using assms by (rule zip_empty_total)
  then show ?thesis by (simp add: accuracy_value py_truediv_def)
qed

theorem accuracy_zero_division_witness:
  "snd (accuracy {''Spot''} mfc_viterbi [[], []] [[], []]
          \<lparr>table = [(''Spot'', FakeState ''NOUN'')]\<rparr>) = Inl ZeroDivisionError"
  using accuracy_zero_division[of "[[], []]" "{''Spot''}" mfc_viterbi "[[], []]"
      "\<lparr>table = [(''Spot'', FakeState ''NOUN'')]\<rparr>"]
  by simp

section \<open>\<^verbatim>\<open>bigram_counts\<close>\<close>

lemma set_adjacent:
  "(a, b) \<in> set (adjacent s) \<longleftrightarrow> (\<exists>k. k + 1 < length s \<and> s ! k = a \<and> s ! (k + 1) = b)"
  unfolding adjacent_def by (auto simp: image_iff less_diff_conv)



lemma dict_keys_Nil: "dict_keys [] = []" by (simp add: dict_keys_def)


lemma count_of_Nil: "count_of [] k = 0" by (simp add: count_of_def)



text \<open>
  Claim C5. For every pair \<open>(a, b)\<close> the count that \<^verbatim>\<open>bigram_counts\<close> holds is the
  number of positions \<open>k\<close>, summed over the sentences one by one, at which a sentence
  has \<open>a\<close> at \<open>k\<close> and \<open>b\<close> at \<open>k + 1\<close>; and a pair is a key of the result only if it
  occurs at two adjacent positions of one and the same sentence. The last element of a
  sentence and the first of the next are never counted as a pair.
\<close>

theorem bigram_counts_within_sentences:
  "count_of (bigram_counts sequences) (a, b) =
     (\<Sum>sentence\<leftarrow>sequences.
        int (length (filter (\<lambda>k. sentence ! k = a \<and> sentence ! (k + 1) = b)
                       [0..<length sentence - 1]))) \<and>
   ((a, b) \<in> set (dict_keys (bigram_counts sequences)) \<longleftrightarrow>
      (\<exists>sentence \<in> set sequences.
         \<exists>k. k + 1 < length sentence \<and> sentence ! k = a \<and> sentence ! (k + 1) = b))"
proof
  have "count_of (bigram_counts sequences) (a, b) =
      int (\<Sum>s\<leftarrow>sequences. count_list (adjacent s) (a, b))"
    by (simp add: bigram_as_foldl count_of_foldl count_of_Nil count_list_concat comp_def)
  also have "\<dots> = (\<Sum>s\<leftarrow>sequences. int (count_list (adjacent s) (a, b)))"
    by (induction sequences) simp_all
  finally show "count_of (bigram_counts sequences) (a, b) =
     (\<Sum>sentence\<leftarrow>sequences.
        int (length (filter (\<lambda>k. sentence ! k = a \<and> sentence ! (k + 1) = b)
                       [0..<length sentence - 1])))"
    by (simp only: count_list_adjacent)
next
  show "(a, b) \<in> set (dict_keys (bigram_counts sequences)) \<longleftrightarrow>
      (\<exists>sentence \<in> set sequences.
         \<exists>k. k + 1 < length sentence \<and> sentence ! k = a \<and> sentence ! (k + 1) = b)"
    by (simp add: bigram_as_foldl keys_foldl dict_keys_Nil set_adjacent del: One_nat_def add_Suc_right) 
qed



theorem bigram_counts_within_sentences_witness:
  "count_of (bigram_counts [[''DET'', ''NOUN''], [''VERB'', ''NOUN'']]) (''NOUN'', ''VERB'') = 0 \<and>
   (''NOUN'', ''VERB'') \<notin> set (dict_keys (bigram_counts [[''DET'', ''NOUN''], [''VERB'', ''NOUN'']])) \<and>
   count_of (bigram_counts [[''DET'', ''NOUN''], [''VERB'', ''NOUN'']]) (''DET'', ''NOUN'') = 1"
  using bigram_counts_within_sentences[of "[[''DET'', ''NOUN''], [''VERB'', ''NOUN'']]" "''NOUN''" "''VERB''"]
    bigram_counts_within_sentences[of "[[''DET'', ''NOUN''], [''VERB'', ''NOUN'']]" "''DET''" "''NOUN''"]
  by (simp add: bigram_counts_def bigram_sentence_def count_step_def dict_set_def dict_keys_def count_of_def)



section \<open>Collections of different shapes\<close>

lemma zip_take_both: "zip (take (length Y) X) (take (length X) Y) = zip X Y"
proof (induction X arbitrary: Y)
  case Nil
  then show ?case by simp
next
  case (Cons x X)
  then show ?case by (cases Y) auto
qed



text \<open>
  Claim C7, as stated, fails: the code has no \<^verbatim>\<open>MalformedSequenceError\<close> and no check
  of the shapes. \<^verbatim>\<open>pair_counts\<close> processes a sentence whose partner is longer without
  any error, and \<^verbatim>\<open>accuracy\<close> scores a collection of two sentences against one of
  one sentence.
\<close>

theorem pair_counts_silent:
  "pair_counts [[''DET'']] [[''the'', ''dog'']] = Inr [(''DET'', [(''the'', 1)])] \<and>
   snd (accuracy {''Spot''} mfc_viterbi [[''Spot''], [''Spot'', ''Spot'']] [[''NOUN'']]
          \<lparr>table = [(''Spot'', FakeState ''NOUN'')]\<rparr>) = Inr 1"
  by (simp add: pair_counts_def err_bind_def py_index_def pair_counts_step_def dict_set_def
      accuracy_def simplify_decoding_def mfc_viterbi_def viterbi_def replace_unknown_def
      defaultdict_getitem_def py_name_def matches_def py_truediv_def)

text \<open>
  Claim C7, amended. A mismatch is never reported by an error of its own.
  \<^verbatim>\<open>pair_counts(seqA, seqB)\<close> raises \<^verbatim>\<open>IndexError\<close> exactly when some non-empty
  sentence of \<open>seqA\<close> has no partner in \<open>seqB\<close> or a shorter one; otherwise it returns
  the counts of the pairs at matching positions and ignores whatever \<open>seqB\<close> has in
  surplus. \<^verbatim>\<open>accuracy\<close> pairs the collections with \<^verbatim>\<open>zip\<close>: it gives the result
  of the two collections cut to the shorter one, and the only exception it can raise is
  \<^verbatim>\<open>ZeroDivisionError\<close>.
\<close>

theorem mismatch_handling:
  "pair_counts seqA seqB =
     (if \<exists>i<length seqA. seqA ! i \<noteq> [] \<and>
            (length seqB \<le> i \<or> length (seqB ! i) < length (seqA ! i))
      then Inl IndexError
      else Inr (foldl pair_step [] (concat (map2 zip seqA seqB)))) \<and>
   accuracy vocab vit X Y model =
     accuracy vocab vit (take (length Y) X) (take (length X) Y) model \<and>
   (\<forall>e. snd (accuracy vocab vit X Y model) = Inl e \<longrightarrow> e = ZeroDivisionError)"
proof -
  have "(\<exists>i<length seqA. seqA ! i \<noteq> [] \<and>
            (length seqB \<le> i \<or> length (seqB ! i) < length (seqA ! i))) \<longleftrightarrow> \<not> covered seqA seqB"
    by (auto simp: covered_index not_le not_less)
  then have 1: "pair_counts seqA seqB =
     (if \<exists>i<length seqA. seqA ! i \<noteq> [] \<and>
            (length seqB \<le> i \<or> length (seqB ! i) < length (seqA ! i))
      then Inl IndexError
      else Inr (foldl pair_step [] (concat (map2 zip seqA seqB))))"
    by (simp only: pair_counts_cases) simp
  have 2: "accuracy vocab vit X Y model =
     accuracy vocab vit (take (length Y) X) (take (length X) Y) model"
    by (simp add: accuracy_def zip_take_both)
  have 3: "\<forall>e. snd (accuracy vocab vit X Y model) = Inl e \<longrightarrow> e = ZeroDivisionError"
    by (simp add: accuracy_value py_truediv_def)
  from 1 2 3 show ?thesis by blast
qed



theorem mismatch_handling_witness:
  "pair_counts [[''DET'', ''NOUN'']] [[''the'']]
     = (Inl IndexError :: py_error + (string, (string, int) dict) dict) \<and>
   pair_counts [[''DET'']] [[''the'', ''dog''], [''barks'']] = Inr [(''DET'', [(''the'', 1)])]"
proof
  have c: "\<exists>i<length [[''DET'', ''NOUN'']]. [[''DET'', ''NOUN'']] ! i \<noteq> [] \<and>
            (length [[''the'']] \<le> i \<or> length ([[''the'']] ! i) < length ([[''DET'', ''NOUN'']] ! i))"
    by (rule exI[of _ 0]) simp
  have "pair_counts [[''DET'', ''NOUN'']] [[''the'']] =
     (if \<exists>i<length [[''DET'', ''NOUN'']]. [[''DET'', ''NOUN'']] ! i \<noteq> [] \<and>
            (length [[''the'']] \<le> i \<or> length ([[''the'']] ! i) < length ([[''DET'', ''NOUN'']] ! i))
      then Inl IndexError
      else Inr (foldl pair_step [] (concat (map2 zip [[''DET'', ''NOUN'']] [[''the'']])))) "
    using mismatch_handling[of "[[''DET'', ''NOUN'']]" "[[''the'']]" "{}" mfc_viterbi "[]" "[]" "\<lparr>table = []\<rparr>"]
    by (rule conjunct1)
  then show "pair_counts [[''DET'', ''NOUN'']] [[''the'']]
     = (Inl IndexError :: py_error + (string, (string, int) dict) dict)"
    unfolding if_P[OF c] .
next
  have c: "\<not> (\<exists>i<length [[''DET'']]. [[''DET'']] ! i \<noteq> [] \<and>
            (length [[''the'', ''dog''], [''barks'']] \<le> i \<or>
             length ([[''the'', ''dog''], [''barks'']] ! i) < length ([[''DET'']] ! i)))"
    by simp
  have "pair_counts [[''DET'']] [[''the'', ''dog''], [''barks'']] =
     (if \<exists>i<length [[''DET'']]. [[''DET'']] ! i \<noteq> [] \<and>
            (length [[''the'', ''dog''], [''barks'']] \<le> i \<or>
             length ([[''the'', ''dog''], [''barks'']] ! i) < length ([[''DET'']] ! i))
      then Inl IndexError
      else Inr (foldl pair_step [] (concat (map2 zip [[''DET'']] [[''the'', ''dog''], [''barks'']]))))"
    using mismatch_handling[of "[[''DET'']]" "[[''the'', ''dog''], [''barks'']]" "{}" mfc_viterbi "[]" "[]" "\<lparr>table = []\<rparr>"]
    by (rule conjunct1)
  then have "pair_counts [[''DET'']] [[''the'', ''dog''], [''barks'']] =
       Inr (foldl pair_step [] (concat (map2 zip [[''DET'']] [[''the'', ''dog''], [''barks'']])))"
    unfolding if_not_P[OF c] .
  then show "pair_counts [[''DET'']] [[''the'', ''dog''], [''barks'']] = Inr [(''DET'', [(''the'', 1)])]"
    by (simp add: pair_step_def pair_counts_step_def dict_set_def)
qed


section \<open>\<^verbatim>\<open>MFCTagger\<close>\<close>

lemma defaultdict_getitem_get:
  "defaultdict_getitem d w = (d', v) \<Longrightarrow> v = table_get d w \<and> table_get d' = table_get d"
  by (auto simp: defaultdict_getitem_def table_get_def map_of_dict_set fun_eq_iff split: option.splits if_splits)

lemma table_lookups_get:
  "table_lookups d ws = (d', vs) \<Longrightarrow> vs = map (table_get d) ws \<and> table_get d' = table_get d"
proof (induction ws arbitrary: d d' vs)
  case Nil
  then show ?case by simp
next
  case (Cons w ws)
  obtain d1 v where g: "defaultdict_getitem d w = (d1, v)" by (cases "defaultdict_getitem d w") auto
  obtain d2 vs' where l: "table_lookups d1 ws = (d2, vs')" by (cases "table_lookups d1 ws") auto
  from Cons.prems g l have e: "d' = d2" "vs = v # vs'" by simp_all
  from defaultdict_getitem_get[OF g] Cons.IH[OF l] e show ?case by simp
qed

lemma viterbi_get:
  "table_get (table (fst (viterbi tagger seq))) = table_get (table tagger) \<and>
   snd (snd (viterbi tagger seq)) =
     enumerate 0 ([PyStr ''<start>''] @ map (table_get (table tagger)) seq @ [PyStr ''<end>''])"
proof -
  obtain d vs where l: "table_lookups (table tagger) seq = (d, vs)"
    by (cases "table_lookups (table tagger) seq") auto
  from table_lookups_get[OF l] show ?thesis by (simp add: viterbi_def l)
qed

lemma viterbi_path_nth:
  "i < length seq \<Longrightarrow> snd (snd (snd (viterbi tagger seq)) ! (i + 1)) = table_get (table tagger) (seq ! i)"
  by (simp add: viterbi_get nth_enumerate_eq nth_append)

lemma earlier_get:
  "table_get (table (foldl (\<lambda>t s. fst (viterbi t s)) tagger earlier)) = table_get (table tagger)"
  by (induction earlier arbitrary: tagger) (simp_all add: viterbi_get)

lemma init_map_of:
  "distinct (map fst tbl) \<Longrightarrow>
   map_of (foldl (\<lambda>d (word, tag). dict_set d word (FakeState tag)) d0 tbl) w =
     (case map_of tbl w of Some t \<Rightarrow> Some (FakeState t) | None \<Rightarrow> map_of d0 w)"
proof (induction tbl arbitrary: d0)
  case Nil
  then show ?case by simp
next
  case (Cons p tbl)
  obtain k v where p: "p = (k, v)" by (cases p)
  from Cons.prems have d: "distinct (map fst tbl)" and n: "map_of tbl k = None"
    by (auto simp: p map_of_eq_None_iff)
  show ?case using n by (simp add: p Cons.IH[OF d] map_of_dict_set split: option.splits)
qed

lemma init_get:
  "distinct (map fst tbl) \<Longrightarrow>
   table_get (table (MFCTagger_init tbl)) w =
     (case map_of tbl w of Some t \<Rightarrow> FakeState t | None \<Rightarrow> missing)"
  by (simp add: table_get_def MFCTagger_init_def init_map_of split: option.splits)

lemma py_max_loop_spec:
  assumes "\<forall>k \<in> set ks. key k = Inr (f k)" and "bv = f best"
  shows "\<exists>m. py_max_loop key best bv ks = Inr m \<and> m \<in> set (best # ks) \<and>
             (\<forall>k \<in> set (best # ks). f k \<le> f m)"
  using assms
proof (induction ks arbitrary: best bv)
  case Nil
  then show ?case by simp
next
  case (Cons k ks)
  from Cons.prems have kk: "key k = Inr (f k)" and rest: "\<forall>k \<in> set ks. key k = Inr (f k)" by simp_all
  show ?case
  proof (cases "f k > bv")
    case True
    from Cons.IH[OF rest refl, of k] obtain m where
      m: "py_max_loop key k (f k) ks = Inr m" "m \<in> set (k # ks)" "\<forall>x \<in> set (k # ks). f x \<le> f m" by blast
    from m(3) have "f k \<le> f m" by simp
    with True Cons.prems(2) have "f best \<le> f m" by simp
    with m True show ?thesis by (auto simp: kk err_bind_def)
  next
    case False
    from Cons.IH[OF rest Cons.prems(2)] obtain m where
      m: "py_max_loop key best bv ks = Inr m" "m \<in> set (best # ks)" "\<forall>x \<in> set (best # ks). f x \<le> f m" by blast
    from m(3) have "f best \<le> f m" by simp
    with False Cons.prems(2) have "f k \<le> f m" by simp
    with m False show ?thesis by (auto simp: kk err_bind_def)
  qed
qed

lemma py_max_spec:
  assumes "xs \<noteq> []" and "\<forall>k \<in> set xs. key k = Inr (f k)"
  shows "\<exists>m. py_max xs key = Inr m \<and> m \<in> set xs \<and> (\<forall>k \<in> set xs. f k \<le> f m)"
proof -
  from assms(1) obtain x rest where xs: "xs = x # rest" by (cases xs) auto
  from assms(2) have "key x = Inr (f x)" "\<forall>k \<in> set rest. key k = Inr (f k)" by (simp_all add: xs)
  with py_max_loop_spec[of rest key f "f x" x] show ?thesis
    by (simp add: py_max_def xs err_bind_def)
qed


lemma dict_set_nonempty: "dict_set d k v \<noteq> []"
  by (simp add: dict_set_def)

lemma pos2_Nil: "pos2 []" by (simp add: pos2_def)

lemma err_bind_Inr: "err_bind (Inr v) f = f v"
  by (simp add: err_bind_def)

lemma err_bind_Inl: "err_bind (Inl e) f = Inl e"
  by (simp add: err_bind_def)

lemma pos2_step: "pos2 r \<Longrightarrow> pos2 (pair_counts_step r a t)"
  unfolding pos2_def pair_counts_step_def
  by (fastforce split: option.splits if_splits simp: map_of_dict_set dict_set_nonempty)

lemma pos2_foldl: "pos2 r \<Longrightarrow> pos2 (foldl pair_step r ps)"
  by (induction ps arbitrary: r) (auto simp: pair_step_def pos2_step)

lemma dom_step: "dom (map_of (pair_counts_step r a t)) = insert a (dom (map_of r))"
  unfolding pair_counts_step_def by (auto split: option.splits simp: map_of_dict_set)

lemma dom_foldl: "dom (map_of (foldl pair_step r ps)) = dom (map_of r) \<union> fst ` set ps"
  by (induction ps arbitrary: r) (auto simp: pair_step_def dom_step)

lemma covered_Nil_concat: "covered A [] \<Longrightarrow> concat A = []"
  by (induction A) auto

lemma covered_fst: "covered A B \<Longrightarrow> map fst (concat (map2 zip A B)) = concat A"
proof (induction A B rule: covered.induct)
  case (1 B)
  then show ?case by simp
next
  case (2 s A)
  then show ?case using covered_Nil_concat[of A] by auto
next
  case (3 s A b B)
  then show ?case by (simp add: map_fst_zip_take)
qed

lemma max_tag:
  assumes "pos2 wc" and "map_of wc w = Some inner"
  shows "\<exists>t. py_max (dict_keys inner)
                (\<lambda>k. err_bind (dict_getitem wc w) (\<lambda>inner'. dict_getitem inner' k)) = Inr t
             \<and> is_mfc wc w t"
proof -
  from assms have ne: "dict_keys inner \<noteq> []" and pos: "\<forall>t c. map_of inner t = Some c \<longrightarrow> 0 < c"
    by (auto simp: pos2_def dict_keys_def)
  have c2: "count_of2 wc w = count_of inner"
    by (rule ext) (simp add: count_of2_def assms(2))
  have key: "\<forall>k \<in> set (dict_keys inner).
       err_bind (dict_getitem wc w) (\<lambda>inner'. dict_getitem inner' k) = Inr (count_of2 wc w k)"
  proof
    fix k assume "k \<in> set (dict_keys inner)"
    then obtain c where "map_of inner k = Some c"
      by (auto simp: dict_keys_def weak_map_of_SomeI dest!: weak_map_of_SomeI)
    then show "err_bind (dict_getitem wc w) (\<lambda>inner'. dict_getitem inner' k) = Inr (count_of2 wc w k)"
      by (simp add: err_bind_def dict_getitem_def assms(2) c2 count_of_def)
  qed
  from py_max_spec[OF ne key] obtain t where
    t: "py_max (dict_keys inner)
          (\<lambda>k. err_bind (dict_getitem wc w) (\<lambda>inner'. dict_getitem inner' k)) = Inr t"
       "t \<in> set (dict_keys inner)" "\<forall>k \<in> set (dict_keys inner). count_of2 wc w k \<le> count_of2 wc w t"
    by blast
  from t(2) obtain c where c: "map_of inner t = Some c"
    by (auto simp: dict_keys_def dest!: weak_map_of_SomeI)
  with pos have p: "0 < count_of2 wc w t" by (simp add: c2 count_of_def)
  have "\<forall>t'. count_of2 wc w t' \<le> count_of2 wc w t"
  proof
    fix t'
    show "count_of2 wc w t' \<le> count_of2 wc w t"
    proof (cases "map_of inner t'")
      case None
      then have "count_of2 wc w t' = 0" by (simp add: c2 count_of_def)
      with p show ?thesis by simp
    next
      case (Some c')
      then have "t' \<in> set (dict_keys inner)"
        by (auto simp: dict_keys_def dest!: map_of_SomeD intro: rev_image_eqI)
      with t(3) show ?thesis by blast
    qed
  qed
  with p t(1) show ?thesis by (auto simp: is_mfc_def)
qed

lemma mfc_loop_spec:
  assumes "pos2 wc" and "set ws \<subseteq> dom (map_of wc)" and "distinct (map fst tbl0)"
    and "\<forall>w t. map_of tbl0 w = Some t \<longrightarrow> is_mfc wc w t"
  shows "\<exists>tbl. mfc_loop wc ws tbl0 = Inr tbl \<and> distinct (map fst tbl) \<and>
           dom (map_of tbl) = dom (map_of tbl0) \<union> set ws \<and>
           (\<forall>w t. map_of tbl w = Some t \<longrightarrow> is_mfc wc w t)"
  using assms(2-)
proof (induction ws arbitrary: tbl0)
  case Nil
  then show ?case by simp
next
  case (Cons w ws)
  from Cons.prems(1) obtain inner where i: "map_of wc w = Some inner" by auto
  from max_tag[OF assms(1) i] obtain t where
    t: "py_max (dict_keys inner)
          (\<lambda>k. err_bind (dict_getitem wc w) (\<lambda>inner'. dict_getitem inner' k)) = Inr t"
       "is_mfc wc w t" by blast
  let ?tbl1 = "dict_set tbl0 w t"
  have 1: "set ws \<subseteq> dom (map_of wc)" using Cons.prems(1) by simp
  have 2: "distinct (map fst ?tbl1)" using Cons.prems(2) by (rule distinct_dict_set)
  have 3: "\<forall>w' t'. map_of ?tbl1 w' = Some t' \<longrightarrow> is_mfc wc w' t'"
    using Cons.prems(3) t(2) by (auto simp: map_of_dict_set)
  from Cons.IH[OF 1 2 3] obtain tbl where
    r: "mfc_loop wc ws ?tbl1 = Inr tbl" "distinct (map fst tbl)"
       "dom (map_of tbl) = dom (map_of ?tbl1) \<union> set ws"
       "\<forall>w t. map_of tbl w = Some t \<longrightarrow> is_mfc wc w t" by blast
  have g: "dict_getitem wc w = Inr inner" by (simp add: dict_getitem_def i)
  have "mfc_loop wc (w # ws) tbl0 = Inr tbl"
    using t(1) by (simp add: g err_bind_Inr r(1))
  moreover have "dom (map_of tbl) = dom (map_of tbl0) \<union> set (w # ws)"
    using r(3) by (auto simp: map_of_dict_set)
  ultimately show ?case using r(2,4) by blast
qed


lemma count_of2_Nil: "count_of2 [] a t = 0"
  by (simp add: count_of2_def)

text \<open>
  Claim C6. Let the training set pair every word with a tag, and let \<^verbatim>\<open>vocab\<close>
  hold exactly its words. Then the table and the tagger are built without error, the
  counts of \<^verbatim>\<open>pair_counts(words, tags)\<close> are the numbers of co-occurrences in the
  training set, and in the path \<^verbatim>\<open>viterbi\<close> returns for any sequence (after any
  number of earlier decodings, each of which may have stored defaults in the table) the
  state at position \<open>i + 1\<close>, the one for the word at position \<open>i\<close>, is: for a word
  of the training set, a tag whose count with that word is positive and maximal; for any
  other word, the state named \<^verbatim>\<open><MISSING>\<close>.
\<close>

theorem mfc_tagger_decoding:
  assumes "list_all2 (\<lambda>ws ts. length ws = length ts) X Y" and "set vocab = set (concat X)"
  shows "\<exists>word_counts tagger.
     pair_counts X Y = Inr word_counts \<and> mfc_model vocab X Y = Inr tagger \<and>
     (\<forall>w t. count_of2 word_counts w t = int (count_list (concat (map2 zip X Y)) (w, t))) \<and>
     (\<forall>earlier seq. \<forall>i<length seq.
        (let tagger' = foldl (\<lambda>m s. fst (viterbi m s)) tagger earlier;
             state = snd (snd (snd (viterbi tagger' seq)) ! (i + 1))
         in if seq ! i \<in> set (concat X)
            then \<exists>t. state = FakeState t \<and> 0 < count_of2 word_counts (seq ! i) t \<and>
                     (\<forall>t'. count_of2 word_counts (seq ! i) t' \<le> count_of2 word_counts (seq ! i) t)
            else state = FakeState ''<MISSING>''))"
proof -
  let ?ps = "concat (map2 zip X Y)"
  let ?wc = "foldl pair_step [] ?ps"
  have cov: "covered X Y" using assms(1) by (rule covered_parallel)
  have pc: "pair_counts X Y = Inr ?wc" using cov by (simp add: pair_counts_cases)
  have pos: "pos2 ?wc" by (rule pos2_foldl[OF pos2_Nil])
  have "dom (map_of ?wc) = set (map fst ?ps)" by (simp add: dom_foldl)
  then have dom: "dom (map_of ?wc) = set (concat X)" by (simp only: covered_fst[OF cov])
  have cnt: "\<forall>w t. count_of2 ?wc w t = int (count_list ?ps (w, t))"
    by (simp add: count_of2_foldl count_of2_Nil)
  have "set vocab \<subseteq> dom (map_of ?wc)" by (simp add: dom assms(2))
  from mfc_loop_spec[OF pos this, of "[]"]
  obtain tbl where tbl: "mfc_loop ?wc vocab [] = Inr tbl" "distinct (map fst tbl)"
      "dom (map_of tbl) = set (concat X)" "\<forall>w t. map_of tbl w = Some t \<longrightarrow> is_mfc ?wc w t"
    by (auto simp: assms(2))
  let ?tagger = "MFCTagger_init tbl"
  have mm: "mfc_model vocab X Y = Inr ?tagger"
    by (simp add: mfc_model_def pc err_bind_Inr tbl(1))
  have dec: "\<forall>earlier seq. \<forall>i<length seq.
        (let tagger' = foldl (\<lambda>m s. fst (viterbi m s)) ?tagger earlier;
             state = snd (snd (snd (viterbi tagger' seq)) ! (i + 1))
         in if seq ! i \<in> set (concat X)
            then \<exists>t. state = FakeState t \<and> 0 < count_of2 ?wc (seq ! i) t \<and>
                     (\<forall>t'. count_of2 ?wc (seq ! i) t' \<le> count_of2 ?wc (seq ! i) t)
            else state = FakeState ''<MISSING>'')"
  proof (intro allI impI)
    fix earlier :: "string list list" and seq :: "string list" and i
    assume i: "i < length seq"
    let ?w = "seq ! i"
    let ?tagger' = "foldl (\<lambda>m s. fst (viterbi m s)) ?tagger earlier"
    have st: "snd (snd (snd (viterbi ?tagger' seq)) ! (i + 1)) =
        (case map_of tbl ?w of Some t \<Rightarrow> FakeState t | None \<Rightarrow> missing)"
      by (simp only: viterbi_path_nth[OF i] earlier_get init_get[OF tbl(2)])
    show "let tagger' = ?tagger';
             state = snd (snd (snd (viterbi tagger' seq)) ! (i + 1))
         in if seq ! i \<in> set (concat X)
            then \<exists>t. state = FakeState t \<and> 0 < count_of2 ?wc (seq ! i) t \<and>
                     (\<forall>t'. count_of2 ?wc (seq ! i) t' \<le> count_of2 ?wc (seq ! i) t)
            else state = FakeState ''<MISSING>''"
    proof (cases "?w \<in> set (concat X)")
      case True
      with tbl(3) obtain t where t: "map_of tbl ?w = Some t" by blast
      with tbl(4) have "is_mfc ?wc ?w t" by blast
      with True t show ?thesis unfolding Let_def st by (simp add: is_mfc_def)
    next
      case False
      with tbl(3) have "map_of tbl ?w = None" by blast
      with False show ?thesis unfolding Let_def st by (simp add: missing_def)
    qed
  qed
  from pc mm cnt dec show ?thesis by blast
qed

theorem mfc_tagger_decoding_witness:
  "mfc_model [''See'', ''Spot'', ''run'', ''ran'']
     [[''See'', ''Spot'', ''run''], [''Spot'', ''ran'']]
     [[''VERB'', ''NOUN'', ''VERB''], [''NOUN'', ''VERB'']] =
     Inr \<lparr>table = [(''See'', FakeState ''VERB''), (''Spot'', FakeState ''NOUN''),
                  (''run'', FakeState ''VERB''), (''ran'', FakeState ''VERB'')]\<rparr> \<and>
   snd (snd (snd (viterbi
       \<lparr>table = [(''See'', FakeState ''VERB''), (''Spot'', FakeState ''NOUN''),
                  (''run'', FakeState ''VERB''), (''ran'', FakeState ''VERB'')]\<rparr>
       [''Spot'', ''sat''])) ! 2) = FakeState ''<MISSING>'' \<and>
   snd (snd (viterbi
       \<lparr>table = [(''See'', FakeState ''VERB''), (''Spot'', FakeState ''NOUN''),
                  (''run'', FakeState ''VERB''), (''ran'', FakeState ''VERB'')]\<rparr>
       [''Spot'', ''sat''])) =
     [(0, PyStr ''<start>''), (1, FakeState ''NOUN''), (2, FakeState ''<MISSING>''),
      (3, PyStr ''<end>'')]"
proof -
  let ?X = "[[''See'', ''Spot'', ''run''], [''Spot'', ''ran'']]"
  let ?Y = "[[''VERB'', ''NOUN'', ''VERB''], [''NOUN'', ''VERB'']]"
  let ?V = "[''See'', ''Spot'', ''run'', ''ran'']"
  let ?T = "\<lparr>table = [(''See'', FakeState ''VERB''), (''Spot'', FakeState ''NOUN''),
                  (''run'', FakeState ''VERB''), (''ran'', FakeState ''VERB'')]\<rparr>"
  have h1: "list_all2 (\<lambda>ws ts. length ws = length ts) ?X ?Y" by simp
  have h2: "set ?V = set (concat ?X)" by auto
  from mfc_tagger_decoding[OF h1 h2] obtain word_counts tagger where
    m: "mfc_model ?V ?X ?Y = Inr tagger" and
    d: "\<forall>earlier seq. \<forall>i<length seq.
        (let tagger' = foldl (\<lambda>m s. fst (viterbi m s)) tagger earlier;
             state = snd (snd (snd (viterbi tagger' seq)) ! (i + 1))
         in if seq ! i \<in> set (concat ?X)
            then \<exists>t. state = FakeState t \<and> 0 < count_of2 word_counts (seq ! i) t \<and>
                     (\<forall>t'. count_of2 word_counts (seq ! i) t' \<le> count_of2 word_counts (seq ! i) t)
            else state = FakeState ''<MISSING>'')"
    by (elim exE conjE)
  have e: "mfc_model ?V ?X ?Y = Inr ?T"
    by (simp add: mfc_model_def pair_counts_def err_bind_def py_index_def pair_counts_step_def
        dict_set_def dict_getitem_def dict_keys_def py_max_def MFCTagger_init_def)
  with m have tg: "tagger = ?T" by simp
  have "snd (snd (snd (viterbi tagger [''Spot'', ''sat''])) ! 2) = FakeState ''<MISSING>''"
    using d[THEN spec[of _ "[]"], THEN spec[of _ "[''Spot'', ''sat'']"], THEN spec[of _ 1]]
    by (simp add: Let_def numeral_2_eq_2)
  then have a: "snd (snd (snd (viterbi ?T [''Spot'', ''sat''])) ! 2) = FakeState ''<MISSING>''"
    by (simp only: tg)
  have b: "snd (snd (viterbi ?T [''Spot'', ''sat''])) =
     [(0, PyStr ''<start>''), (1, FakeState ''NOUN''), (2, FakeState ''<MISSING>''),
      (3, PyStr ''<end>'')]"
    by (simp add: viterbi_def defaultdict_getitem_def dict_set_def missing_def)
  from e a b show ?thesis by (intro conjI)
qed

section \<open>Model builder: the model that is built\<close>

lemma err_bind_eq_Inr: "err_bind r f = Inr y \<longleftrightarrow> (\<exists>v. r = Inr v \<and> f v = Inr y)"
  by (cases r) (simp_all add: err_bind_def)



lemma count_of_Some: "map_of d k = Some c \<Longrightarrow> count_of d k = c"
  by (simp add: count_of_def)







lemma pair_counts_Inr:
  "pair_counts A B = Inr r \<Longrightarrow> covered A B \<and> r = foldl pair_step [] (concat (map2 zip A B))"
  by (simp add: pair_counts_cases split: if_splits)

lemma training_tables_Inr:
  assumes "training_tables X Y = Inr T"
  shows "pair_counts Y X = Inr (emission_counts T)" "starting_counts Y = Inr (tag_starts T)"
    "ending_counts Y = Inr (tag_ends T)" "tag_unigrams T = unigram_counts Y"
    "tag_bigrams T = bigram_counts Y" "len_data_y T = int (length Y)"
  using assms by (auto simp: training_tables_def err_bind_eq_Inr)






text \<open>The definitions that evaluate the tables and the build on a concrete training set.\<close>

lemmas eval_tables = training_tables_def pair_counts_def err_bind_def py_index_def
  pair_counts_step_def dict_set_def starting_counts_def ending_counts_def count_step_def
  unigram_counts_def bigram_counts_def bigram_sentence_def














section \<open>Model builder: the build that fails\<close>

lemma prob_dist_of_ok: "total_n \<noteq> 0 \<Longrightarrow> \<exists>d. prob_dist_of acc items total_n = Inr d"
  by (induction items arbitrary: acc) (auto simp: err_bind_def py_truediv_def)

lemma states_loop_ok:
  assumes "\<forall>tag \<in> set tags. \<exists>u items. map_of (tag_unigrams T) tag = Some u \<and> u \<noteq> 0 \<and>
             map_of (emission_counts T) tag = Some items"
  shows "\<exists>states m'. states_loop T tags (states0, m) = Inr (states, m') \<and>
           dom (map_of states) = dom (map_of states0) \<union> set tags"
  using assms
proof (induction tags arbitrary: states0 m)
  case Nil
  then show ?case by simp
next
  case (Cons tag tags)
  from Cons.prems obtain u items where
    u: "map_of (tag_unigrams T) tag = Some u" "u \<noteq> 0" "map_of (emission_counts T) tag = Some items"
    by auto
  from prob_dist_of_ok[OF u(2)] obtain d where d: "prob_dist_of [] items u = Inr d" by blast
  from Cons.prems have rest: "\<forall>tag \<in> set tags. \<exists>u items. map_of (tag_unigrams T) tag = Some u \<and>
      u \<noteq> 0 \<and> map_of (emission_counts T) tag = Some items" by simp
  from Cons.IH[OF rest, of "dict_set states0 tag (State d tag)" "add_state m (State d tag)"]
  obtain states m' where
    r: "states_loop T tags (dict_set states0 tag (State d tag), add_state m (State d tag))
          = Inr (states, m')"
       "dom (map_of states) = dom (map_of (dict_set states0 tag (State d tag))) \<union> set tags"
    by blast
  have "states_loop T (tag # tags) (states0, m) = Inr (states, m')"
    by (simp add: err_bind_def dict_getitem_def u d Let_def map_of_dict_set r(1))
  moreover have "dom (map_of states) = dom (map_of states0) \<union> set (tag # tags)"
    using r(2) by (auto simp: map_of_dict_set)
  ultimately show ?case by blast
qed

lemma transitions_loop_KeyError:
  assumes "\<forall>b \<in> set bs. map_of (tag_bigrams T) b \<noteq> None \<and> fst b \<in> dom (map_of states) \<and>
              snd b \<in> dom (map_of states) \<and>
              (\<exists>u. map_of (tag_unigrams T) (fst b) = Some u \<and> u \<noteq> 0)"
    and "len_data_y T \<noteq> 0"
    and "\<exists>b \<in> set bs. map_of (tag_starts T) (fst b) = None \<or> map_of (tag_ends T) (fst b) = None"
  shows "transitions_loop T states bs m = Inl KeyError"
  using assms(1,3)
proof (induction bs arbitrary: m)
  case Nil
  then show ?case by simp
next
  case (Cons b bs)
  from Cons.prems(1) obtain c_bigram s0 s1 u where
    ok: "map_of (tag_bigrams T) b = Some c_bigram" "map_of states (fst b) = Some s0"
        "map_of states (snd b) = Some s1" "map_of (tag_unigrams T) (fst b) = Some u" "u \<noteq> 0"
    by auto
  show ?case
  proof (cases "map_of (tag_starts T) (fst b)")
    case None
    then show ?thesis by (simp add: Let_def err_bind_def dict_getitem_def)
  next
    case (Some c_start)
    note st = this
    show ?thesis
    proof (cases "map_of (tag_ends T) (fst b)")
      case None
      then show ?thesis
        using assms(2) by (simp add: Let_def err_bind_def dict_getitem_def py_truediv_def st ok)
    next
      case (Some c_end)
      with st Cons.prems(2) have bad: "\<exists>b \<in> set bs. map_of (tag_starts T) (fst b) = None \<or>
           map_of (tag_ends T) (fst b) = None" by auto
      from Cons.prems(1) have rest: "\<forall>b \<in> set bs. map_of (tag_bigrams T) b \<noteq> None \<and>
              fst b \<in> dom (map_of states) \<and> snd b \<in> dom (map_of states) \<and>
              (\<exists>u. map_of (tag_unigrams T) (fst b) = Some u \<and> u \<noteq> 0)" by simp
      show ?thesis
        using assms(2)
        by (simp add: Let_def err_bind_def dict_getitem_def py_truediv_def st Some ok
              Cons.IH[OF rest bad])
    qed
  qed
qed

lemma key_map_of: "k \<in> set (dict_keys d) \<longleftrightarrow> map_of d k \<noteq> None"
  by (simp add: dict_keys_def map_of_eq_None_iff)

lemma keys_dom: "set (dict_keys d) = dom (map_of d)"
  by (simp add: dict_keys_def dom_map_of_conv_image_fst)

lemma starting_loop_Inr:
  "starting_loop ss d = Inr st \<Longrightarrow>
   set (dict_keys st) = set (dict_keys d) \<union> hd ` set ss \<and> (\<forall>s \<in> set ss. s \<noteq> [])"
proof (induction ss arbitrary: d)
  case Nil
  then show ?case by simp
next
  case (Cons s ss)
  from Cons.prems have ne: "s \<noteq> []" and r: "starting_loop ss (count_step d (hd s)) = Inr st"
    by (auto simp: err_bind_eq_Inr py_index_def hd_conv_nth split: if_splits)
  from Cons.IH[OF r] ne show ?case by (auto simp: keys_count_step)
qed

lemma ending_loop_Inr:
  "ending_loop ss d = Inr en \<Longrightarrow>
   set (dict_keys en) = set (dict_keys d) \<union> last ` set ss \<and> (\<forall>s \<in> set ss. s \<noteq> [])"
proof (induction ss arbitrary: d)
  case Nil
  then show ?case by simp
next
  case (Cons s ss)
  from Cons.prems have ne: "s \<noteq> []" and r: "ending_loop ss (count_step d (last s)) = Inr en"
    by (auto simp: err_bind_eq_Inr py_index_def last_conv_nth split: if_splits)
  from Cons.IH[OF r] ne show ?case by (auto simp: keys_count_step)
qed

lemma unigram_lookup:
  assumes "tag \<in> set (concat Y)"
  shows "\<exists>u. map_of (unigram_counts Y) tag = Some u \<and> u \<noteq> 0"
proof -
  from assms have "tag \<in> set (dict_keys (unigram_counts Y))"
    by (simp only: unigram_as_foldl keys_foldl) simp
  then obtain u where u: "map_of (unigram_counts Y) tag = Some u"
    by (auto simp: key_map_of)
  have "count_of (unigram_counts Y) tag = int (count_list (concat Y) tag)"
    by (simp add: unigram_as_foldl count_of_foldl count_of_Nil)
  moreover from assms have "count_list (concat Y) tag \<noteq> 0"
    by (simp only: count_list_0_iff) simp
  ultimately have "u \<noteq> 0" using count_of_Some[OF u] by simp
  with u show ?thesis by blast
qed

lemma bigram_key_tags:
  assumes "(a, b) \<in> set (dict_keys (bigram_counts Y))"
  shows "a \<in> set (concat Y) \<and> b \<in> set (concat Y) \<and> Y \<noteq> []"
proof -
  from assms obtain s k where s: "s \<in> set Y" "k + 1 < length s" "s ! k = a" "s ! (k + 1) = b"
    by (auto simp: bigram_as_foldl keys_foldl dict_keys_Nil set_adjacent simp del: One_nat_def add_Suc_right)
  from s(2) have "s ! k \<in> set s" "s ! (k + 1) \<in> set s" by (auto intro: nth_mem)
  with s show ?thesis by auto
qed

text \<open>
  Claim C9. Let \<open>T\<close> be the tables of a training set, so the tables were computed
  without error. The tags that are keys of \<^verbatim>\<open>tag_starts\<close> are the first tags of the
  training sentences and the keys of \<^verbatim>\<open>tag_ends\<close> are their last tags, and the
  tables are consistent: both tags of every observed bigram are keys of the unigram and
  of the emission counts. All the same, if the first tag of some observed bigram is not a
  key of \<^verbatim>\<open>tag_starts\<close> or not a key of \<^verbatim>\<open>tag_ends\<close>, the build raises
  \<^verbatim>\<open>KeyError\<close>.
\<close>

theorem build_key_error:
  assumes "training_tables X Y = Inr T"
    and "(b0, b1) \<in> set (dict_keys (tag_bigrams T))"
    and "b0 \<notin> set (dict_keys (tag_starts T)) \<or> b0 \<notin> set (dict_keys (tag_ends T))"
  shows "set (dict_keys (tag_starts T)) = hd ` set Y \<and>
         set (dict_keys (tag_ends T)) = last ` set Y \<and>
         (\<forall>bigram \<in> set (dict_keys (tag_bigrams T)).
            fst bigram \<in> set (dict_keys (tag_unigrams T)) \<and>
            snd bigram \<in> set (dict_keys (tag_unigrams T)) \<and>
            fst bigram \<in> set (dict_keys (emission_counts T)) \<and>
            snd bigram \<in> set (dict_keys (emission_counts T))) \<and>
         basic_model X Y = Inl KeyError"
proof -
  note tt = training_tables_Inr[OF assms(1)]
  from pair_counts_Inr[OF tt(1)] have cov: "covered Y X"
    and em: "emission_counts T = foldl pair_step [] (concat (map2 zip Y X))" by simp_all
  have "dom (map_of (emission_counts T)) = set (map fst (concat (map2 zip Y X)))"
    by (simp add: em dom_foldl)
  then have emdom: "dom (map_of (emission_counts T)) = set (concat Y)"
    by (simp only: covered_fst[OF cov])
  have emkeys: "set (dict_keys (emission_counts T)) = set (concat Y)"
    by (simp only: keys_dom emdom)
  have unikeys: "set (dict_keys (tag_unigrams T)) = set (concat Y)"
    by (simp add: tt(4) unigram_as_foldl keys_foldl dict_keys_Nil)
  have st: "set (dict_keys (tag_starts T)) = hd ` set Y"
    using starting_loop_Inr[of Y "[]" "tag_starts T"] tt(2)
    by (simp add: starting_counts_def dict_keys_Nil)
  have en: "set (dict_keys (tag_ends T)) = last ` set Y"
    using ending_loop_Inr[of Y "[]" "tag_ends T"] tt(3)
    by (simp add: ending_counts_def dict_keys_Nil)
  have bk: "\<forall>bigram \<in> set (dict_keys (tag_bigrams T)).
      fst bigram \<in> set (concat Y) \<and> snd bigram \<in> set (concat Y)"
    using bigram_key_tags[of _ _ Y] by (auto simp: tt(5))
  have cons: "\<forall>bigram \<in> set (dict_keys (tag_bigrams T)).
            fst bigram \<in> set (dict_keys (tag_unigrams T)) \<and>
            snd bigram \<in> set (dict_keys (tag_unigrams T)) \<and>
            fst bigram \<in> set (dict_keys (emission_counts T)) \<and>
            snd bigram \<in> set (dict_keys (emission_counts T))"
    using bk by (simp add: emkeys unikeys)
  have len: "len_data_y T \<noteq> 0"
    using bigram_key_tags[of b0 b1 Y] assms(2) by (simp add: tt(5) tt(6))
  have tags_ok: "\<forall>tag \<in> set (dict_keys (emission_counts T)).
      \<exists>u items. map_of (tag_unigrams T) tag = Some u \<and> u \<noteq> 0 \<and>
        map_of (emission_counts T) tag = Some items"
  proof
    fix tag assume t: "tag \<in> set (dict_keys (emission_counts T))"
    then have "tag \<in> set (concat Y)" by (simp only: emkeys)
    from unigram_lookup[OF this] obtain u where
      "map_of (tag_unigrams T) tag = Some u" "u \<noteq> 0" by (auto simp: tt(4))
    moreover from t obtain items where "map_of (emission_counts T) tag = Some items"
      by (auto simp: key_map_of)
    ultimately show "\<exists>u items. map_of (tag_unigrams T) tag = Some u \<and> u \<noteq> 0 \<and>
        map_of (emission_counts T) tag = Some items" by blast
  qed
  from states_loop_ok[OF tags_ok, of "[]" "\<lparr>hmm_states = [], hmm_edges = []\<rparr>"]
  obtain states m where
    sl: "states_loop T (dict_keys (emission_counts T)) ([], \<lparr>hmm_states = [], hmm_edges = []\<rparr>)
          = Inr (states, m)"
    and sd: "dom (map_of states) = set (dict_keys (emission_counts T))"
    by auto
  have pre: "\<forall>b \<in> set (dict_keys (tag_bigrams T)). map_of (tag_bigrams T) b \<noteq> None \<and>
              fst b \<in> dom (map_of states) \<and> snd b \<in> dom (map_of states) \<and>
              (\<exists>u. map_of (tag_unigrams T) (fst b) = Some u \<and> u \<noteq> 0)"
  proof
    fix b assume b: "b \<in> set (dict_keys (tag_bigrams T))"
    with bk have in_y: "fst b \<in> set (concat Y)" "snd b \<in> set (concat Y)" by auto
    from unigram_lookup[OF in_y(1)] have "\<exists>u. map_of (tag_unigrams T) (fst b) = Some u \<and> u \<noteq> 0"
      by (simp add: tt(4))
    moreover from b have "map_of (tag_bigrams T) b \<noteq> None" by (simp add: key_map_of)
    ultimately show "map_of (tag_bigrams T) b \<noteq> None \<and>
              fst b \<in> dom (map_of states) \<and> snd b \<in> dom (map_of states) \<and>
              (\<exists>u. map_of (tag_unigrams T) (fst b) = Some u \<and> u \<noteq> 0)"
      using in_y by (simp add: sd emkeys)
  qed
  have bad: "\<exists>b \<in> set (dict_keys (tag_bigrams T)).
      map_of (tag_starts T) (fst b) = None \<or> map_of (tag_ends T) (fst b) = None"
    using assms(2,3) by (auto simp: key_map_of intro!: bexI[of _ "(b0, b1)"])
  have "build_model T = Inl KeyError"
    by (simp add: build_model_def sl err_bind_Inr transitions_loop_KeyError[OF pre len bad])
  then have "basic_model X Y = Inl KeyError"
    by (simp add: basic_model_def assms(1) err_bind_Inr)
  with st en cons show ?thesis by (intro conjI)
qed


text \<open>
  The training set of the notebook's own example: \<^verbatim>\<open>NOUN\<close> begins the bigram
  \<^verbatim>\<open>(NOUN, VERB)\<close> and ends no sentence.
\<close>

theorem build_key_error_witness:
  "training_tables [[''See'', ''Spot'', ''run''], [''Spot'', ''ran'']]
       [[''VERB'', ''NOUN'', ''VERB''], [''NOUN'', ''VERB'']] =
     Inr \<lparr>emission_counts =
            [(''VERB'', [(''See'', 1), (''run'', 1), (''ran'', 1)]), (''NOUN'', [(''Spot'', 2)])],
          tag_unigrams = [(''VERB'', 3), (''NOUN'', 2)],
          tag_bigrams = [((''VERB'', ''NOUN''), 1), ((''NOUN'', ''VERB''), 2)],
          tag_starts = [(''VERB'', 1), (''NOUN'', 1)],
          tag_ends = [(''VERB'', 2)], len_data_y = 2\<rparr> \<and>
   basic_model [[''See'', ''Spot'', ''run''], [''Spot'', ''ran'']]
       [[''VERB'', ''NOUN'', ''VERB''], [''NOUN'', ''VERB'']] = Inl KeyError"
proof -
  let ?X = "[[''See'', ''Spot'', ''run''], [''Spot'', ''ran'']]"
  let ?Y = "[[''VERB'', ''NOUN'', ''VERB''], [''NOUN'', ''VERB'']]"
  let ?T = "\<lparr>emission_counts =
            [(''VERB'', [(''See'', 1), (''run'', 1), (''ran'', 1)]), (''NOUN'', [(''Spot'', 2)])],
          tag_unigrams = [(''VERB'', 3), (''NOUN'', 2)],
          tag_bigrams = [((''VERB'', ''NOUN''), 1), ((''NOUN'', ''VERB''), 2)],
          tag_starts = [(''VERB'', 1), (''NOUN'', 1)],
          tag_ends = [(''VERB'', 2)], len_data_y = 2\<rparr>"
  have t: "training_tables ?X ?Y = Inr ?T"
    by (simp add: eval_tables)
  have k: "(''NOUN'', ''VERB'') \<in> set (dict_keys (tag_bigrams ?T))"
    by (simp add: dict_keys_def)
  have n: "''NOUN'' \<notin> set (dict_keys (tag_starts ?T)) \<or> ''NOUN'' \<notin> set (dict_keys (tag_ends ?T))"
    by (simp add: dict_keys_def)
  from build_key_error[OF t k n] have "basic_model ?X ?Y = Inl KeyError" by blast
  with t show ?thesis by (intro conjI)
qed

end
